theory Spec2Isabelle
  imports Main "HOL-Library.Word" "HOL-Library.Char_ord" "HOL-Library.List_Lexorder" "HOL-Library.AList"
begin

section \<open>Data structures\<close>

text \<open>
  The program is a Go ETL pipeline. Its structs become records. A Go \<open>float64\<close> is an
  IEEE 754 binary64 value; it is represented by its 64-bit pattern, so that NaN and the
  infinities are ordinary values of the type. A Go \<open>uint64\<close> is a 64-bit word, a Go
  \<open>string\<close> a list of bytes. Three structs have a field \<open>Name\<close>, two a field
  \<open>Timestamp\<close> and \<open>CPUNumber\<close>: the fields of \<open>CpuStats\<close> carry the prefix \<open>cs_\<close>
  and the name of an \<open>Indicator\<close> is \<open>ind_Name\<close>.
\<close>

type_synonym float64 = "64 word"

record Appliance =
  IP :: string
  HostName :: string

record CpuStats =
  cs_Name :: string
  cs_Timestamp :: "64 word"
  cs_CPUNumber :: string
  PIdle :: string
  PUser :: string
  PSys :: string
  PIRQ :: string
  PNice :: string

record Indicator =
  ind_Name :: string
  Value :: float64

record DeviceData =
  Name :: string
  CPUNumber :: string
  Timestamp :: "64 word"
  Indicators :: "Indicator list"

subsection \<open>Configuration\<close>

definition bufferThreshold :: nat where
  "bufferThreshold = 200"

definition extractWorkers :: nat where
  "extractWorkers = 1000"

definition loadWorkers :: nat where
  "loadWorkers = 10"

text \<open>The capacity given to every lane channel by \<open>initChannels\<close>.\<close>

definition chanCapacity :: nat where
  "chanCapacity = 2000"

section \<open>Transform\<close>

text \<open>
  \<open>strconv.ParseFloat\<close> and the subtraction of \<open>float64\<close> belong to the Go library and
  runtime, not to the repository: they are parameters of the model. \<open>ParseFloat\<close> returns a
  value together with an optional error, as in Go; \<open>transform\<close> drops the error and keeps
  the value. The constants \<open>100\<close> and \<open>0\<close> of type \<open>float64\<close> are their bit patterns.
\<close>

datatype NumError = ErrSyntax | ErrRange

type_synonym ParseFloat = "string \<Rightarrow> float64 \<times> NumError option"

definition f64_100 :: float64 where
  "f64_100 = 0x4059000000000000"

definition f64_0 :: float64 where
  "f64_0 = 0"

definition transform :: "ParseFloat \<Rightarrow> (float64 \<Rightarrow> float64 \<Rightarrow> float64) \<Rightarrow> CpuStats \<Rightarrow> DeviceData" where
  "transform parseFloat fsub cpu =
    (let idle = fst (parseFloat (PIdle cpu));
         pNice = fst (parseFloat (PNice cpu));
         pUser = fst (parseFloat (PUser cpu));
         pSys = fst (parseFloat (PSys cpu));
         pIRQ = fst (parseFloat (PIRQ cpu));
         indicators =
           [\<lparr>ind_Name = ''utilization'', Value = fsub f64_100 idle\<rparr>,
            \<lparr>ind_Name = ''nice'', Value = pNice\<rparr>,
            \<lparr>ind_Name = ''user'', Value = pUser\<rparr>,
            \<lparr>ind_Name = ''system'', Value = pSys\<rparr>,
            \<lparr>ind_Name = ''irq'', Value = pIRQ\<rparr>]
     in \<lparr>Name = cs_Name cpu, CPUNumber = cs_CPUNumber cpu,
         Timestamp = cs_Timestamp cpu, Indicators = indicators\<rparr>)"

text \<open>
  The documented contract of \<open>strconv.ParseFloat\<close> that \<open>transform\<close> relies on: a string
  that is not syntactically a number is reported with \<open>ErrSyntax\<close> and the value \<open>0\<close>.
\<close>

definition syntax_error_yields_zero :: "ParseFloat \<Rightarrow> bool" where
  "syntax_error_yields_zero parseFloat =
     (\<forall>s. snd (parseFloat s) = Some ErrSyntax \<longrightarrow> fst (parseFloat s) = f64_0)"

text \<open>A stand-in parser for concrete evaluation: it knows two numerals and rejects the rest.\<close>

definition toyParseFloat :: ParseFloat where
  "toyParseFloat s =
     (if s = ''0'' then (0, None)
      else if s = ''100'' then (0x4059000000000000, None)
      else (0, Some ErrSyntax))"

section \<open>Partitioner\<close>

text \<open>\<open>targetWorker := index % loadWorkers\<close>; the index of a \<open>range\<close> loop is never negative.\<close>

definition targetWorker :: "nat \<Rightarrow> nat \<Rightarrow> nat" where
  "targetWorker nLanes index = index mod nLanes"

text \<open>The lane of every entity of a source list, by position.\<close>

definition partition_lanes :: "nat \<Rightarrow> 'a list \<Rightarrow> ('a \<times> nat) list" where
  "partition_lanes nLanes appliances =
     map (\<lambda>(idx, ap). (ap, targetWorker nLanes idx)) (enumerate 0 appliances)"

section \<open>CSV reader\<close>

text \<open>
  \<open>os.Open\<close> and the syntax of CSV are outside the model: its input says that the file
  cannot be opened, that its text is not CSV, or gives the rows of the text, each a list
  of fields (blank lines are not rows). \<open>csv.NewReader\<close> leaves \<open>FieldsPerRecord\<close> at 0,
  so \<open>ReadAll\<close> takes the number of fields of the first row as the number every row must
  have, and fails with \<open>ErrFieldCount\<close> on a row that has another number.
\<close>

datatype csv_input = OpenFailed | ParseFailed | Rows "string list list"

datatype csv_error = OpenError | ParseError | ErrFieldCount

definition ReadAll :: "string list list \<Rightarrow> csv_error + string list list" where
  "ReadAll rows =
     (case rows of
        [] \<Rightarrow> Inr []
      | first # rest \<Rightarrow>
          if list_all (\<lambda>row. length row = length first) rest then Inr rows
          else Inl ErrFieldCount)"

fun collect_appliances :: "string list list \<Rightarrow> Appliance list" where
  "collect_appliances [] = []"
| "collect_appliances (rec # records) =
     (if length rec < 2 then collect_appliances records
      else \<lparr>IP = rec ! 0, HostName = rec ! 1\<rparr> # collect_appliances records)"

fun skipped_lines :: "nat \<Rightarrow> string list list \<Rightarrow> nat list" where
  "skipped_lines i [] = []"
| "skipped_lines i (rec # records) =
     (if length rec < 2 then (i + 1) # skipped_lines (i + 1) records
      else skipped_lines (i + 1) records)"

text \<open>The result and the line numbers logged as skipped.\<close>

definition readAppliancesFromCSV :: "csv_input \<Rightarrow> (csv_error + Appliance list) \<times> nat list" where
  "readAppliancesFromCSV input =
     (case input of
        OpenFailed \<Rightarrow> (Inl OpenError, [])
      | ParseFailed \<Rightarrow> (Inl ParseError, [])
      | Rows rows \<Rightarrow>
          (case ReadAll rows of
             Inl err \<Rightarrow> (Inl err, [])
           | Inr records \<Rightarrow> (Inr (collect_appliances records), skipped_lines 0 records)))"

section \<open>Library string functions used by the recovery loader\<close>

text \<open>
  \<open>filepath.Base\<close>, \<open>strings.TrimSuffix\<close>, \<open>strings.Split\<close>, \<open>strconv.Atoi\<close>, the
  \<open>%d\<close> verb of \<open>fmt.Sprintf\<close> and \<open>filepath.Match\<close> are modelled after the Go
  library, on byte strings, with \<open>/\<close> as the path separator.
\<close>

definition Base :: "string \<Rightarrow> string" where
  "Base path =
     (if path = [] then ''.''
      else let stripped = rev (dropWhile (\<lambda>c. c = CHR ''/'') (rev path));
               last_elem = rev (takeWhile (\<lambda>c. c \<noteq> CHR ''/'') (rev stripped))
           in if last_elem = [] then ''/'' else last_elem)"

definition HasSuffix :: "string \<Rightarrow> string \<Rightarrow> bool" where
  "HasSuffix s suffix =
     (length suffix \<le> length s \<and> drop (length s - length suffix) s = suffix)"

definition TrimSuffix :: "string \<Rightarrow> string \<Rightarrow> string" where
  "TrimSuffix s suffix =
     (if HasSuffix s suffix then take (length s - length suffix) s else s)"

text \<open>
  \<open>genSplit sep cur s\<close> scans \<open>s\<close> from the left for the next occurrence of the
  separator; \<open>cur\<close> holds, reversed, the bytes of the current piece. Occurrences are
  taken leftmost first and do not overlap, as \<open>strings.Split\<close> takes them. The program
  calls \<open>Split\<close> with the separator \<open>worker\<close> only; an empty separator is outside the model.
\<close>

function genSplit :: "string \<Rightarrow> string \<Rightarrow> string \<Rightarrow> string list" where
  "genSplit sep cur [] = [rev cur]"
| "genSplit sep cur (c # cs) =
     (if sep \<noteq> [] \<and> take (length sep) (c # cs) = sep
      then rev cur # genSplit sep [] (drop (length sep) (c # cs))
      else genSplit sep (c # cur) cs)"
  by pat_completeness auto
termination
  by (relation "measure (\<lambda>(sep, cur, s). length s)") auto

definition Split :: "string \<Rightarrow> string \<Rightarrow> string list" where
  "Split s sep = genSplit sep [] s"

definition is_digit :: "char \<Rightarrow> bool" where
  "is_digit c = (48 \<le> (of_char c :: nat) \<and> (of_char c :: nat) \<le> 57)"

definition digit_of_char :: "char \<Rightarrow> nat" where
  "digit_of_char c = (of_char c :: nat) - 48"

fun digits_value :: "nat \<Rightarrow> string \<Rightarrow> nat option" where
  "digits_value n [] = Some n"
| "digits_value n (ch # s) =
     (if is_digit ch then digits_value (n * 10 + digit_of_char ch) s else None)"

text \<open>
  \<open>strconv.Atoi\<close>: an optional sign, then one or more decimal digits; the value must fit
  the type \<open>int\<close>, taken to be 64 bits wide.
\<close>

definition Atoi :: "string \<Rightarrow> NumError + int" where
  "Atoi s =
     (case s of
        [] \<Rightarrow> Inl ErrSyntax
      | c # cs \<Rightarrow>
          let ds = (if c = CHR ''-'' \<or> c = CHR ''+'' then cs else s)
          in if ds = [] then Inl ErrSyntax
             else case digits_value 0 ds of
                    None \<Rightarrow> Inl ErrSyntax
                  | Some n \<Rightarrow>
                      let v = (if c = CHR ''-'' then - int n else int n)
                      in if - (2 ^ 63) \<le> v \<and> v < 2 ^ 63 then Inr v else Inl ErrRange)"

definition char_of_digit :: "nat \<Rightarrow> char" where
  "char_of_digit d = char_of (48 + d)"

function digits_of :: "nat \<Rightarrow> string" where
  "digits_of n =
     (if n < 10 then [char_of_digit n] else digits_of (n div 10) @ [char_of_digit (n mod 10)])"
  by pat_completeness auto
termination
  by (relation "measure id") auto

declare digits_of.simps [simp del]

text \<open>The text \<open>fmt.Sprintf\<close> produces for \<open>%d\<close>.\<close>

definition itoa :: "int \<Rightarrow> string" where
  "itoa k = (if k < 0 then CHR ''-'' # digits_of (nat (- k)) else digits_of (nat k))"

definition extractWorkerID :: "string \<Rightarrow> int" where
  "extractWorkerID fileName =
     (let base = Base fileName;
          parts = Split (TrimSuffix base ''.json.gz'') ''worker''
      in if length parts \<noteq> 2 then 0
         else case Atoi (parts ! 1) of Inl err \<Rightarrow> 0 | Inr n \<Rightarrow> n)"

text \<open>
  \<open>filepath.Match\<close> for patterns made of literal bytes and \<open>*\<close>, which stands for any
  run of bytes other than the separator. The one pattern of the program is of this kind.
\<close>

fun Match :: "string \<Rightarrow> string \<Rightarrow> bool" where
  "Match [] name = (name = [])"
| "Match (p # ps) [] = (p = CHR ''*'' \<and> Match ps [])"
| "Match (p # ps) (c # cs) =
     (if p = CHR ''*'' then Match ps (c # cs) \<or> (c \<noteq> CHR ''/'' \<and> Match (p # ps) cs)
      else p = c \<and> Match ps cs)"

datatype glob_error = ErrBadPattern

text \<open>
  \<open>filepath.Glob\<close> on the working directory: the names of the directory that match, in
  sorted order. It fails only on a malformed pattern, and a pattern of literals and \<open>*\<close>
  is never malformed.
\<close>

definition Glob :: "string \<Rightarrow> string list \<Rightarrow> glob_error + string list" where
  "Glob pattern names = Inr (sort (filter (Match pattern) names))"

definition failedBufferPattern :: string where
  "failedBufferPattern = ''buffer_failed_worker*.json.gz''"

section \<open>Environment and state of the load side\<close>

text \<open>
  The JSON codec, gzip, the file system's permissions and the ingestion endpoint are
  outside the repository; they are the fields of an environment. \<open>jsonMarshal\<close> is
  \<open>json.Marshal\<close> on a slice of \<open>DeviceData\<close> (\<open>None\<close>: it returns an error);
  \<open>jsonDecode\<close> is \<open>json.Decoder.Decode\<close> into such a slice; \<open>gzipCompress\<close> is what
  a \<open>gzip.Writer\<close> leaves in the file once closed, given the bytes written to it;
  \<open>gzipDecompress\<close> is the stream a \<open>gzip.Reader\<close> yields (\<open>None\<close>: \<open>gzip.NewReader\<close>
  fails); \<open>canCreate\<close> and \<open>canRemove\<close> say whether \<open>os.Create\<close> and \<open>os.Remove\<close>
  succeed on a name; \<open>endpoint n body\<close> is the outcome of the \<open>n\<close>-th request, with
  that body.
\<close>

type_synonym bytes = string

datatype http_result = NetworkError | Status int

record env =
  jsonMarshal :: "DeviceData list \<Rightarrow> bytes option"
  jsonDecode :: "bytes \<Rightarrow> DeviceData list option"
  gzipCompress :: "bytes \<Rightarrow> bytes"
  gzipDecompress :: "bytes \<Rightarrow> bytes option"
  canCreate :: "string \<Rightarrow> bool"
  canRemove :: "string \<Rightarrow> bool"
  endpoint :: "nat \<Rightarrow> bytes \<Rightarrow> http_result"

text \<open>
  The global variables \<open>buffers\<close> and \<open>dataChan\<close> (the records queued in each lane
  channel), the files of the working directory, and the bodies of the requests sent so far.
\<close>

record state =
  buffers :: "DeviceData list list"
  dataChan :: "DeviceData list list"
  files :: "(string \<times> bytes) list"
  requests :: "bytes list"

datatype 'a outcome = Done 'a | Blocked 'a | Panicked 'a

definition initBuffers :: "nat \<Rightarrow> state \<Rightarrow> state" where
  "initBuffers count s = s\<lparr>buffers := replicate count []\<rparr>"

definition initChannels :: "nat \<Rightarrow> state \<Rightarrow> state" where
  "initChannels count s = s\<lparr>dataChan := replicate count []\<rparr>"

section \<open>Send to API\<close>

datatype send_error = ClientError | ApiError

text \<open>
  The error of \<open>json.Marshal\<close> is dropped: the body is then empty. \<open>http.NewRequest\<close>
  is called with a constant method and a constant URL and does not fail.
\<close>

definition sendToAPI :: "env \<Rightarrow> DeviceData list \<Rightarrow> state \<Rightarrow> send_error option \<times> state" where
  "sendToAPI e data s =
     (let payload = (case jsonMarshal e data of None \<Rightarrow> [] | Some b \<Rightarrow> b);
          resp = endpoint e (length (requests s)) payload;
          s' = s\<lparr>requests := requests s @ [payload]\<rparr>
      in case resp of
           NetworkError \<Rightarrow> (Some ClientError, s')
         | Status code \<Rightarrow>
             if 200 \<le> code \<and> code \<le> 299 then (None, s') else (Some ApiError, s'))"

section \<open>Buffer save and read\<close>

text \<open>
  \<open>json.Encoder.Encode\<close> writes the marshalled value and a newline, or nothing when
  marshalling fails; the failure is logged and the file stays, holding the compression of
  nothing.
\<close>

definition saveBufferToFile :: "env \<Rightarrow> DeviceData list \<Rightarrow> string \<Rightarrow> state \<Rightarrow> state" where
  "saveBufferToFile e data filename s =
     (let path = filename @ ''.json.gz''
      in if \<not> canCreate e path then s
         else let written = (case jsonMarshal e data of None \<Rightarrow> [] | Some b \<Rightarrow> b @ [CHR 0x0A])
              in s\<lparr>files := AList.update path (gzipCompress e written) (files s)\<rparr>)"

datatype read_error = OpenErr | GzipErr | DecodeErr

definition readBufferFromFile :: "env \<Rightarrow> state \<Rightarrow> string \<Rightarrow> read_error + DeviceData list" where
  "readBufferFromFile e s filePath =
     (case map_of (files s) filePath of
        None \<Rightarrow> Inl OpenErr
      | Some content \<Rightarrow>
          (case gzipDecompress e content of
             None \<Rightarrow> Inl GzipErr
           | Some stream \<Rightarrow>
               (case jsonDecode e stream of
                  None \<Rightarrow> Inl DecodeErr
                | Some data \<Rightarrow> Inr data)))"

section \<open>Load worker\<close>

text \<open>
  \<open>flushBuffer\<close> receives a pointer to \<open>buffers[workerID]\<close>; the model reads and clears
  that element of \<open>buffers\<close>.
\<close>

definition flushBuffer :: "env \<Rightarrow> nat \<Rightarrow> state \<Rightarrow> state" where
  "flushBuffer e workerID s =
     (let toSend = buffers s ! workerID;
          (err, s1) = sendToAPI e toSend s;
          s2 = (case err of
                  Some _ \<Rightarrow> saveBufferToFile e toSend (''buffer_failed_worker'' @ itoa (int workerID)) s1
                | None \<Rightarrow> s1)
      in s2\<lparr>buffers := (buffers s2)[workerID := []]\<rparr>)"

text \<open>The body of \<open>for item := range ch\<close>, over the records the channel delivers.\<close>

fun loadWorker_loop :: "env \<Rightarrow> nat \<Rightarrow> nat \<Rightarrow> DeviceData list \<Rightarrow> state \<Rightarrow> state" where
  "loadWorker_loop e threshold workerID [] s = s"
| "loadWorker_loop e threshold workerID (item # items) s =
     (let s1 = s\<lparr>buffers := (buffers s)[workerID := buffers s ! workerID @ [item]]\<rparr>;
          s2 = (if length (buffers s1 ! workerID) \<ge> threshold
                then flushBuffer e workerID s1 else s1)
      in loadWorker_loop e threshold workerID items s2)"

definition final_flush :: "env \<Rightarrow> nat \<Rightarrow> state \<Rightarrow> state" where
  "final_flush e workerID s =
     (if length (buffers s ! workerID) > 0 then flushBuffer e workerID s else s)"

text \<open>
  \<open>loadWorker\<close> run to completion on the records its channel delivers before it is
  closed. Indexing \<open>buffers\<close> or \<open>dataChan\<close> out of range panics.
\<close>

definition loadWorker :: "env \<Rightarrow> nat \<Rightarrow> nat \<Rightarrow> DeviceData list \<Rightarrow> state \<Rightarrow> state outcome" where
  "loadWorker e threshold workerID items s =
     (if workerID \<ge> length (buffers s) \<or> workerID \<ge> length (dataChan s) then Panicked s
      else Done (final_flush e workerID (loadWorker_loop e threshold workerID items s)))"

section \<open>Failed buffer loader\<close>

text \<open>
  The loader runs before any load worker is started, so nothing receives from the lane
  channels: a send on a channel that holds \<open>cap\<close> records never returns.
\<close>

fun enqueue_all :: "nat \<Rightarrow> int \<Rightarrow> DeviceData list \<Rightarrow> state \<Rightarrow> state outcome" where
  "enqueue_all cap workerID [] s = Done s"
| "enqueue_all cap workerID (d # dataList) s =
     (if workerID < 0 \<or> nat workerID \<ge> length (dataChan s) then Panicked s
      else if length (dataChan s ! nat workerID) \<ge> cap then Blocked s
      else enqueue_all cap workerID dataList
             (s\<lparr>dataChan := (dataChan s)[nat workerID := dataChan s ! nat workerID @ [d]]\<rparr>))"

definition remove_file :: "env \<Rightarrow> string \<Rightarrow> state \<Rightarrow> state" where
  "remove_file e file s =
     (if canRemove e file then s\<lparr>files := AList.delete file (files s)\<rparr> else s)"

text \<open>One iteration of the loop over the files found.\<close>

definition reload_file :: "env \<Rightarrow> nat \<Rightarrow> string \<Rightarrow> state \<Rightarrow> state outcome" where
  "reload_file e cap file s =
     (case readBufferFromFile e s file of
        Inl err \<Rightarrow> Done s
      | Inr dataList \<Rightarrow>
          (case enqueue_all cap (extractWorkerID file) dataList s of
             Done s' \<Rightarrow> Done (remove_file e file s')
           | Blocked s' \<Rightarrow> Blocked s'
           | Panicked s' \<Rightarrow> Panicked s'))"

fun reload_files :: "env \<Rightarrow> nat \<Rightarrow> string list \<Rightarrow> state \<Rightarrow> state outcome" where
  "reload_files e cap [] s = Done s"
| "reload_files e cap (file # rest) s =
     (case reload_file e cap file s of
        Done s' \<Rightarrow> reload_files e cap rest s'
      | Blocked s' \<Rightarrow> Blocked s'
      | Panicked s' \<Rightarrow> Panicked s')"

definition loadFailedBuffers :: "env \<Rightarrow> nat \<Rightarrow> state \<Rightarrow> state outcome" where
  "loadFailedBuffers e cap s =
     (case Glob failedBufferPattern (map fst (files s)) of
        Inl err \<Rightarrow> Done s
      | Inr found \<Rightarrow> reload_files e cap found s)"

section \<open>Extraction phase\<close>

text \<open>
  The extraction phase of \<open>main\<close> is concurrent: the main goroutine walks the source
  list, puts a token into the channel \<open>sem\<close> (capacity \<open>E\<close>) and starts one goroutine per
  entity; each goroutine extracts, transforms, sends its record to the lane channel
  \<open>index % loadWorkers\<close> and, in its deferred function, takes a token out of \<open>sem\<close>.
  The model is an interleaving of these steps. A goroutine is in one of four phases;
  \<open>lane_len\<close> is the number of records waiting in each lane channel (the load workers
  take them out), \<open>sent\<close> lists the sends made, as pairs of entity index and lane.
\<close>

datatype phase = Extracting | Sending | Releasing | Exited

record sched =
  next_idx :: nat
  acquired :: bool
  sem :: nat
  tasks :: "phase list"
  lane_len :: "nat list"
  sent :: "(nat \<times> nat) list"

definition init_sched :: "nat list \<Rightarrow> sched" where
  "init_sched queued =
     \<lparr>next_idx = 0, acquired = False, sem = 0, tasks = [], lane_len = queued, sent = []\<rparr>"

text \<open>
  \<open>step N E L cap\<close>: one step of the phase for \<open>N\<close> entities, \<open>E\<close> permits, \<open>L\<close> lanes
  and lane channels of capacity \<open>cap\<close>. A send to a full channel, and a send of a token
  to a full \<open>sem\<close>, are not enabled: the goroutine waits.
\<close>

inductive step :: "nat \<Rightarrow> nat \<Rightarrow> nat \<Rightarrow> nat \<Rightarrow> sched \<Rightarrow> sched \<Rightarrow> bool"
  for N :: nat and E :: nat and L :: nat and cap :: nat where
  acquire:
    "next_idx s < N \<Longrightarrow> \<not> acquired s \<Longrightarrow> sem s < E \<Longrightarrow>
     step N E L cap s (s\<lparr>acquired := True, sem := sem s + 1\<rparr>)"
| spawn:
    "acquired s \<Longrightarrow>
     step N E L cap s
       (s\<lparr>acquired := False, tasks := tasks s @ [Extracting], next_idx := next_idx s + 1\<rparr>)"
| extract_ok:
    "i < length (tasks s) \<Longrightarrow> tasks s ! i = Extracting \<Longrightarrow>
     step N E L cap s (s\<lparr>tasks := (tasks s)[i := Sending]\<rparr>)"
| extract_failed:
    "i < length (tasks s) \<Longrightarrow> tasks s ! i = Extracting \<Longrightarrow>
     step N E L cap s (s\<lparr>tasks := (tasks s)[i := Releasing]\<rparr>)"
| send:
    "i < length (tasks s) \<Longrightarrow> tasks s ! i = Sending \<Longrightarrow>
     targetWorker L i < length (lane_len s) \<Longrightarrow>
     lane_len s ! targetWorker L i < cap \<Longrightarrow>
     step N E L cap s
       (s\<lparr>tasks := (tasks s)[i := Releasing],
          lane_len := (lane_len s)[targetWorker L i := lane_len s ! targetWorker L i + 1],
          sent := sent s @ [(i, targetWorker L i)]\<rparr>)"
| release:
    "i < length (tasks s) \<Longrightarrow> tasks s ! i = Releasing \<Longrightarrow> sem s > 0 \<Longrightarrow>
     step N E L cap s (s\<lparr>tasks := (tasks s)[i := Exited], sem := sem s - 1\<rparr>)"
| receive:
    "l < length (lane_len s) \<Longrightarrow> lane_len s ! l > 0 \<Longrightarrow>
     step N E L cap s (s\<lparr>lane_len := (lane_len s)[l := lane_len s ! l - 1]\<rparr>)"

text \<open>
  The states the phase can be in: it starts with the lane channels as the recovery loader
  left them.
\<close>

inductive reachable :: "nat \<Rightarrow> nat \<Rightarrow> nat \<Rightarrow> nat \<Rightarrow> sched \<Rightarrow> bool"
  for N :: nat and E :: nat and L :: nat and cap :: nat where
  start: "length queued = L \<Longrightarrow> reachable N E L cap (init_sched queued)"
| after: "reachable N E L cap s \<Longrightarrow> step N E L cap s s' \<Longrightarrow> reachable N E L cap s'"

text \<open>The extraction goroutines that have been started and have not yet given their permit back.\<close>

definition running :: "sched \<Rightarrow> nat" where
  "running s = length (filter (\<lambda>p. p \<noteq> Exited) (tasks s))"

text \<open>Invariants of the extraction phase.\<close>

definition sched_inv :: "nat \<Rightarrow> nat \<Rightarrow> nat \<Rightarrow> sched \<Rightarrow> bool" where
  "sched_inv N E L s =
     (length (tasks s) = next_idx s \<and>
      next_idx s + (if acquired s then 1 else 0) \<le> N \<and>
      sem s = running s + (if acquired s then 1 else 0) \<and>
      sem s \<le> E \<and>
      length (lane_len s) = L)"

definition sent_inv :: "nat \<Rightarrow> sched \<Rightarrow> bool" where
  "sent_inv L s =
     (distinct (map fst (sent s)) \<and>
      (\<forall>p \<in> set (sent s).
         fst p < length (tasks s) \<and> snd p = targetWorker L (fst p) \<and>
         (tasks s ! fst p = Releasing \<or> tasks s ! fst p = Exited)))"

section \<open>A stand-in environment for concrete evaluation\<close>

text \<open>
  To run the model on concrete inputs the library functions need values. The stand-in
  keeps what matters of them: \<open>encoding/json\<close> refuses a \<open>float64\<close> that is NaN or
  infinite (exponent bits all set) and decoding an empty stream fails; a gzip file starts
  with the bytes \<open>1f 8b\<close>. The JSON text itself is replaced by a short text per record,
  and the decoder knows the text of one sample batch.
\<close>

definition unsupported_value :: "float64 \<Rightarrow> bool" where
  "unsupported_value v = (and (drop_bit 52 v) 0x7FF = 0x7FF)"

definition stubText :: "DeviceData list \<Rightarrow> bytes" where
  "stubText data = concat (map (\<lambda>d. Name d @ '','' @ CPUNumber d @ '';'') data)"

definition stubMarshal :: "DeviceData list \<Rightarrow> bytes option" where
  "stubMarshal data =
     (if list_ex (\<lambda>d. list_ex (\<lambda>i. unsupported_value (Value i)) (Indicators d)) data
      then None else Some (stubText data))"

definition sampleBatch :: "DeviceData list" where
  "sampleBatch =
     [\<lparr>Name = ''host1'', CPUNumber = ''0'', Timestamp = 1700000000,
       Indicators = [\<lparr>ind_Name = ''utilization'', Value = 0x4014000000000000\<rparr>]\<rparr>,
      \<lparr>Name = ''host2'', CPUNumber = ''0'', Timestamp = 1700000001,
       Indicators = [\<lparr>ind_Name = ''utilization'', Value = 0x4059000000000000\<rparr>]\<rparr>]"

text \<open>A batch whose only indicator value is a NaN, as \<open>transform\<close> yields for the field \<open>NaN\<close>.\<close>

definition nanBatch :: "DeviceData list" where
  "nanBatch =
     [\<lparr>Name = ''host3'', CPUNumber = ''0'', Timestamp = 1700000002,
       Indicators = [\<lparr>ind_Name = ''utilization'', Value = 0x7FF8000000000001\<rparr>]\<rparr>]"

definition stubDecode :: "bytes \<Rightarrow> DeviceData list option" where
  "stubDecode stream =
     (if stream = stubText sampleBatch @ [CHR 0x0A] then Some sampleBatch else None)"

definition stubGzip :: "bytes \<Rightarrow> bytes" where
  "stubGzip b = CHR 0x1F # CHR 0x8B # b"

definition stubGunzip :: "bytes \<Rightarrow> bytes option" where
  "stubGunzip content =
     (case content of
        a # b # rest \<Rightarrow> if a = CHR 0x1F \<and> b = CHR 0x8B then Some rest else None
      | _ \<Rightarrow> None)"

definition stubEnv :: "http_result \<Rightarrow> bool \<Rightarrow> env" where
  "stubEnv response creatable =
     \<lparr>jsonMarshal = stubMarshal, jsonDecode = stubDecode,
      gzipCompress = stubGzip, gzipDecompress = stubGunzip,
      canCreate = (\<lambda>name. creatable), canRemove = (\<lambda>name. True),
      endpoint = (\<lambda>n body. response)\<rparr>"

text \<open>The state \<open>main\<close> sets up before the recovery loader runs, with the given files.\<close>

definition startState :: "nat \<Rightarrow> (string \<times> bytes) list \<Rightarrow> state" where
  "startState count dir =
     initChannels count (initBuffers count \<lparr>buffers = [], dataChan = [], files = dir, requests = []\<rparr>)"

text \<open>
  A stand-in subtraction (exact when zero is subtracted), a record of garbled fields, and
  a state of the extraction phase for three entities, two permits and two lanes: both
  permits are taken, the task of entity 1 has sent its record.
\<close>

definition toySub :: "float64 \<Rightarrow> float64 \<Rightarrow> float64" where
  "toySub a b = (if b = f64_0 then a else f64_0)"

definition garbledStats :: CpuStats where
  "garbledStats =
     \<lparr>cs_Name = ''host1'', cs_Timestamp = 1700000000, cs_CPUNumber = ''0'',
      PIdle = ''n/a'', PUser = ''3x'', PSys = ''--'', PIRQ = '''', PNice = ''abc''\<rparr>"

definition exampleSched :: sched where
  "exampleSched =
     \<lparr>next_idx = 2, acquired = False, sem = 2, tasks = [Extracting, Releasing],
      lane_len = [0, 1], sent = [(1, 1)]\<rparr>"

text \<open>The state of a phase for one entity, one permit and one lane when all is done.\<close>

definition finishedSched :: sched where
  "finishedSched =
     \<lparr>next_idx = 1, acquired = False, sem = 0, tasks = [Exited], lane_len = [0],
      sent = [(0, 0)]\<rparr>"

text \<open>
  States for concrete evaluation: two lanes with the sample batch in the buffer of lane 1;
  one lane with the NaN batch in its buffer; and the working directory of a run with
  \<open>loadWorkers\<close> lanes that holds a persisted file named for lane 10, or for lane 1.
\<close>

definition loadedState :: state where
  "loadedState = \<lparr>buffers = [[], sampleBatch], dataChan = [[], []], files = [], requests = []\<rparr>"

definition nanState :: state where
  "nanState = \<lparr>buffers = [nanBatch], dataChan = [[]], files = [], requests = []\<rparr>"

definition sampleFile :: bytes where
  "sampleFile = stubGzip (stubText sampleBatch @ [CHR 0x0A])"

definition strayState :: state where
  "strayState = startState loadWorkers [(''buffer_failed_worker10.json.gz'', sampleFile)]"

definition lane1State :: state where
  "lane1State = startState loadWorkers [(''buffer_failed_worker1.json.gz'', sampleFile)]"

text \<open>A directory whose persisted file is not a gzip stream.\<close>

definition corruptState :: state where
  "corruptState = startState loadWorkers [(''buffer_failed_worker2.json.gz'', ''not gzip'')]"

text \<open>The directory with the file of lane 1 when the channel of lane 1 is already full.\<close>

definition fullLaneState :: state where
  "fullLaneState =
     lane1State\<lparr>dataChan := (dataChan lane1State)[1 := replicate chanCapacity (hd sampleBatch)]\<rparr>"

text \<open>The state an outcome carries.\<close>

fun state_of :: "'a outcome \<Rightarrow> 'a" where
  "state_of (Done s) = s"
| "state_of (Blocked s) = s"
| "state_of (Panicked s) = s"

section \<open>Properties of the extraction phase\<close>

lemma filter_update_count:
  "i < length xs \<Longrightarrow>
   length (filter P (xs[i := y])) + (if P (xs ! i) then 1 else 0)
     = length (filter P xs) + (if P y then 1 else 0)"
proof (induction xs arbitrary: i)
  case Nil
  then show ?case by simp
next
  case (Cons x xs)
  show ?case
  proof (cases i)
    case 0
    then show ?thesis by simp
  next
    case (Suc j)
    with Cons.prems have "j < length xs" by simp
    from Cons.IH [OF this] Suc show ?thesis by simp
  qed
qed

lemma running_update:
  "i < length (tasks s) \<Longrightarrow> tasks s ! i \<noteq> Exited \<Longrightarrow>
   running (s\<lparr>tasks := (tasks s)[i := p]\<rparr>) + 1 = running s + (if p \<noteq> Exited then 1 else 0)"
  using filter_update_count [of i "tasks s" "\<lambda>p. p \<noteq> Exited" p]
  by (simp add: running_def)

lemma sched_inv_init: "length queued = L \<Longrightarrow> sched_inv N E L (init_sched queued)"
  by (simp add: sched_inv_def init_sched_def running_def)

lemma sched_inv_step:
  assumes "step N E L cap s s'" and "sched_inv N E L s"
  shows "sched_inv N E L s'"
  using assms
proof (induction rule: step.induct)
  case (acquire s)
  then show ?case by (simp add: sched_inv_def running_def)
next
  case (spawn s)
  then show ?case by (simp add: sched_inv_def running_def)
next
  case (extract_ok i s)
  then show ?case using running_update [of i s Sending] by (simp add: sched_inv_def)
next
  case (extract_failed i s)
  then show ?case using running_update [of i s Releasing] by (simp add: sched_inv_def)
next
  case (send i s)
  then show ?case using running_update [of i s Releasing] by (simp add: sched_inv_def running_def)
next
  case (release i s)
  then show ?case using running_update [of i s Exited] by (auto simp add: sched_inv_def running_def)
next
  case (receive l s)
  then show ?case by (simp add: sched_inv_def running_def)
qed

lemma reachable_sched_inv: "reachable N E L cap s \<Longrightarrow> sched_inv N E L s"
  by (induction rule: reachable.induct) (auto intro: sched_inv_init sched_inv_step)

lemma sent_inv_init: "sent_inv L (init_sched queued)"
  by (simp add: sent_inv_def init_sched_def)

lemma sent_inv_step:
  assumes "step N E L cap s s'" and "sent_inv L s"
  shows "sent_inv L s'"
  using assms
proof (induction rule: step.induct)
  case (acquire s)
  then show ?case by (simp add: sent_inv_def)
next
  case (spawn s)
  then show ?case by (fastforce simp add: sent_inv_def nth_append)
next
  case (extract_ok i s)
  then show ?case by (fastforce simp add: sent_inv_def nth_list_update)
next
  case (extract_failed i s)
  then show ?case by (fastforce simp add: sent_inv_def nth_list_update)
next
  case (send i s)
  then show ?case by (fastforce simp add: sent_inv_def nth_list_update)
next
  case (release i s)
  then show ?case by (fastforce simp add: sent_inv_def nth_list_update)
next
  case (receive l s)
  then show ?case by (simp add: sent_inv_def)
qed

lemma reachable_sent_inv: "reachable N E L cap s \<Longrightarrow> sent_inv L s"
  by (induction rule: reachable.induct) (auto intro: sent_inv_init sent_inv_step)

text \<open>The example state is reached by starting both tasks and letting the second one send.\<close>

lemma example_run: "reachable 3 2 2 2000 exampleSched"
proof -
  let ?s0 = "init_sched [0, 0]"
  let ?s1 = "\<lparr>next_idx = 0, acquired = True, sem = 1, tasks = [], lane_len = [0, 0], sent = []\<rparr>"
  let ?s2 = "\<lparr>next_idx = 1, acquired = False, sem = 1, tasks = [Extracting],
              lane_len = [0, 0], sent = []\<rparr>"
  let ?s3 = "\<lparr>next_idx = 1, acquired = True, sem = 2, tasks = [Extracting],
              lane_len = [0, 0], sent = []\<rparr>"
  let ?s4 = "\<lparr>next_idx = 2, acquired = False, sem = 2, tasks = [Extracting, Extracting],
              lane_len = [0, 0], sent = []\<rparr>"
  let ?s5 = "\<lparr>next_idx = 2, acquired = False, sem = 2, tasks = [Extracting, Sending],
              lane_len = [0, 0], sent = []\<rparr>"
  have r0: "reachable 3 2 2 2000 ?s0" by (rule reachable.start) simp
  have r1: "reachable 3 2 2 2000 ?s1"
    using reachable.after [OF r0 step.acquire [of ?s0 3 2 2 2000]]
    by (simp add: init_sched_def)
  have r2: "reachable 3 2 2 2000 ?s2"
    using reachable.after [OF r1 step.spawn [of ?s1 3 2 2 2000]]
    by (simp add: numeral_2_eq_2)
  have r3: "reachable 3 2 2 2000 ?s3"
    using reachable.after [OF r2 step.acquire [of ?s2 3 2 2 2000]]
    by (simp add: numeral_2_eq_2)
  have r4: "reachable 3 2 2 2000 ?s4"
    using reachable.after [OF r3 step.spawn [of ?s3 3 2 2 2000]]
    by (simp add: numeral_2_eq_2)
  have r5: "reachable 3 2 2 2000 ?s5"
    using reachable.after [OF r4 step.extract_ok [of 1 ?s4 3 2 2 2000]]
    by (simp add: numeral_2_eq_2)
  show ?thesis
    using reachable.after [OF r5 step.send [of 1 ?s5 2 2000 3 2]]
    by (simp add: exampleSched_def targetWorker_def numeral_2_eq_2)
qed

lemma partition_lanes_nth:
  "i < length xs \<Longrightarrow> partition_lanes L xs ! i = (xs ! i, targetWorker L i)"
  by (simp add: partition_lanes_def nth_enumerate_eq)

text \<open>
  Claim C3. With \<open>L > 0\<close> lanes the partitioner gives the entity at position \<open>i\<close> of the
  source list the lane \<open>i mod L\<close>, a lane below \<open>L\<close>. The lane depends on the position
  alone: in every state the extraction phase can reach, whatever the order in which the
  tasks ran and completed, each send recorded is of an entity \<open>i < N\<close> to the lane
  \<open>i mod L\<close>, and no entity is sent twice. With three entities and two lanes the lanes
  are 0, 1, 0.
\<close>

theorem partitioner_index_mod_lanes:
  assumes "0 < L"
  shows "(\<forall>i < length xs. partition_lanes L xs ! i = (xs ! i, i mod L) \<and> i mod L < L) \<and>
         length (partition_lanes L (xs :: 'a list)) = length xs \<and>
         (reachable N E L cap s \<longrightarrow>
            distinct (map fst (sent s)) \<and>
            (\<forall>p \<in> set (sent s). fst p < N \<and> snd p = fst p mod L \<and> snd p < L)) \<and>
         map snd (partition_lanes 2 [a, b, c :: 'a]) = [0, 1, 0]"
proof -
  have 1: "\<forall>i < length xs. partition_lanes L xs ! i = (xs ! i, i mod L) \<and> i mod L < L"
    using assms by (simp add: partition_lanes_nth targetWorker_def)
  have 2: "length (partition_lanes L xs) = length xs"
    by (simp add: partition_lanes_def)
  have 3: "distinct (map fst (sent s)) \<and>
           (\<forall>p \<in> set (sent s). fst p < N \<and> snd p = fst p mod L \<and> snd p < L)"
    if r: "reachable N E L cap s"
  proof -
    from r have "sent_inv L s" by (rule reachable_sent_inv)
    moreover from r have "sched_inv N E L s" by (rule reachable_sched_inv)
    ultimately show ?thesis using assms
      by (auto simp add: sent_inv_def sched_inv_def targetWorker_def split: if_splits)
  qed
  have 4: "map snd (partition_lanes 2 [a, b, c]) = [0, 1, 0]"
    by (simp add: partition_lanes_def targetWorker_def)
  from 1 2 3 4 show ?thesis by blast
qed

theorem partitioner_index_mod_lanes_witness:
  "(0::nat) < 2 \<and> reachable 3 2 2 2000 exampleSched \<and>
   partition_lanes 2 [''10.0.0.1'', ''10.0.0.2'', ''10.0.0.3''] ! 1 = (''10.0.0.2'', 1) \<and>
   partition_lanes 2 [''10.0.0.1'', ''10.0.0.2'', ''10.0.0.3''] ! 2 = (''10.0.0.3'', 0) \<and>
   sent exampleSched = [(1, 1)] \<and> (1::nat) = 1 mod 2"
proof -
  let ?xs = "[''10.0.0.1'', ''10.0.0.2'', ''10.0.0.3'']"
  have pos: "(0::nat) < 2" by simp
  note inst = partitioner_index_mod_lanes [OF pos, of ?xs 3 2 2000 exampleSched]
  from inst have a: "\<forall>i < length ?xs. partition_lanes 2 ?xs ! i = (?xs ! i, i mod 2) \<and> i mod 2 < 2"
    by blast
  have "partition_lanes 2 ?xs ! 1 = (''10.0.0.2'', 1)"
    using a [rule_format, of 1] by simp
  moreover have "partition_lanes 2 ?xs ! 2 = (''10.0.0.3'', 0)"
    using a [rule_format, of 2] by simp
  ultimately show ?thesis
    using example_run by (simp add: exampleSched_def)
qed

text \<open>A state of the phase in which no step is enabled is one where all is done.\<close>

lemma running_pos_task:
  assumes "0 < running s"
  shows "\<exists>i < length (tasks s). tasks s ! i \<noteq> Exited"
proof -
  from assms obtain p ps where "filter (\<lambda>p. p \<noteq> Exited) (tasks s) = p # ps"
    by (cases "filter (\<lambda>p. p \<noteq> Exited) (tasks s)") (simp_all add: running_def)
  then have "p \<in> set (filter (\<lambda>p. p \<noteq> Exited) (tasks s))" by simp
  then have "p \<in> set (tasks s)" and "p \<noteq> Exited" by simp_all
  then show ?thesis by (auto simp add: in_set_conv_nth)
qed

lemma stuck_is_finished:
  assumes inv: "sched_inv N E L s" and pos: "0 < E" "0 < L" "0 < cap"
    and stuck: "\<forall>s'. \<not> step N E L cap s s'"
  shows "next_idx s = N \<and> running s = 0"
proof -
  have r0: "running s = 0"
  proof (rule ccontr)
    assume "running s \<noteq> 0"
    then obtain i where i: "i < length (tasks s)" "tasks s ! i \<noteq> Exited"
      using running_pos_task by auto
    show False
    proof (cases "tasks s ! i")
      case Extracting
      with i stuck step.extract_ok show False by blast
    next
      case Sending
      let ?t = "targetWorker L i"
      from inv pos have t: "?t < length (lane_len s)"
        by (simp add: sched_inv_def targetWorker_def)
      show False
      proof (cases "lane_len s ! ?t < cap")
        case True
        with i Sending t stuck step.send [of i s L cap N E] show False by blast
      next
        case False
        with pos have "lane_len s ! ?t > 0" by simp
        with t stuck step.receive [of ?t s N E L cap] show False by blast
      qed
    next
      case Releasing
      from \<open>running s \<noteq> 0\<close> inv have "sem s > 0" by (simp add: sched_inv_def)
      with i Releasing stuck step.release [of i s N E L cap] show False by blast
    next
      case Exited
      with i show False by simp
    qed
  qed
  have na: "\<not> acquired s" using stuck step.spawn [of s N E L cap] by blast
  with inv r0 have "sem s = 0" by (simp add: sched_inv_def)
  with pos na stuck step.acquire [of s N E L cap] have "\<not> next_idx s < N" by auto
  with inv have "next_idx s = N" by (simp add: sched_inv_def)
  with r0 show ?thesis by simp
qed

lemma finished_run: "reachable 1 1 1 2000 finishedSched"
proof -
  let ?s0 = "init_sched [0]"
  let ?s1 = "\<lparr>next_idx = 0, acquired = True, sem = 1, tasks = [], lane_len = [0], sent = []\<rparr>"
  let ?s2 = "\<lparr>next_idx = 1, acquired = False, sem = 1, tasks = [Extracting],
              lane_len = [0], sent = []\<rparr>"
  let ?s3 = "\<lparr>next_idx = 1, acquired = False, sem = 1, tasks = [Sending],
              lane_len = [0], sent = []\<rparr>"
  let ?s4 = "\<lparr>next_idx = 1, acquired = False, sem = 1, tasks = [Releasing],
              lane_len = [1], sent = [(0, 0)]\<rparr>"
  let ?s5 = "\<lparr>next_idx = 1, acquired = False, sem = 0, tasks = [Exited],
              lane_len = [1], sent = [(0, 0)]\<rparr>"
  have r0: "reachable 1 1 1 2000 ?s0" by (rule reachable.start) simp
  have r1: "reachable 1 1 1 2000 ?s1"
    using reachable.after [OF r0 step.acquire [of ?s0 1 1 1 2000]]
    by (simp add: init_sched_def)
  have r2: "reachable 1 1 1 2000 ?s2"
    using reachable.after [OF r1 step.spawn [of ?s1 1 1 1 2000]] by simp
  have r3: "reachable 1 1 1 2000 ?s3"
    using reachable.after [OF r2 step.extract_ok [of 0 ?s2 1 1 1 2000]] by simp
  have r4: "reachable 1 1 1 2000 ?s4"
    using reachable.after [OF r3 step.send [of 0 ?s3 1 2000 1 1]]
    by (simp add: targetWorker_def)
  have r5: "reachable 1 1 1 2000 ?s5"
    using reachable.after [OF r4 step.release [of 0 ?s4 1 1 1 2000]] by simp
  show ?thesis
    using reachable.after [OF r5 step.receive [of 0 ?s5 1 1 1 2000]]
    by (simp add: finishedSched_def)
qed

lemma finished_stuck: "\<not> step 1 1 1 2000 finishedSched s'"
proof
  assume "step 1 1 1 2000 finishedSched s'"
  then show False
    by (cases rule: step.cases) (simp_all add: finishedSched_def)
qed

text \<open>
  Claim C9. In every state the extraction phase can reach, for any number \<open>N\<close> of
  entities, at most \<open>E\<close> extraction tasks are running. No entity is passed over: the
  tasks started are exactly those of the entities the main loop has gone past. When the
  main loop cannot put its token into \<open>sem\<close>, it waits, and then exactly \<open>E\<close> tasks are
  running. With at least one permit, one lane and room in the lane channels the phase
  cannot get stuck before the end: a state in which no step is enabled has the tasks of
  all \<open>N\<close> entities started and exited.
\<close>

theorem extraction_concurrency_bounded:
  assumes "reachable N E L cap s"
  shows "running s \<le> E \<and> length (tasks s) = next_idx s \<and> next_idx s \<le> N \<and>
         (next_idx s < N \<and> \<not> acquired s \<and> \<not> sem s < E \<longrightarrow> running s = E) \<and>
         (0 < E \<and> 0 < L \<and> 0 < cap \<and> (\<forall>s'. \<not> step N E L cap s s') \<longrightarrow>
            next_idx s = N \<and> running s = 0)"
proof -
  have inv: "sched_inv N E L s" using assms by (rule reachable_sched_inv)
  then have 1: "running s \<le> E \<and> length (tasks s) = next_idx s \<and> next_idx s \<le> N"
    by (simp add: sched_inv_def split: if_splits)
  from inv have 2: "running s = E" if "next_idx s < N" "\<not> acquired s" "\<not> sem s < E"
    using that by (simp add: sched_inv_def)
  have 3: "next_idx s = N \<and> running s = 0"
    if "0 < E" "0 < L" "0 < cap" "\<forall>s'. \<not> step N E L cap s s'"
    using inv that by (rule stuck_is_finished)
  from 1 2 3 show ?thesis by blast
qed

theorem extraction_concurrency_bounded_witness:
  "reachable 3 2 2 2000 exampleSched \<and>
   next_idx exampleSched < 3 \<and> \<not> acquired exampleSched \<and> \<not> sem exampleSched < 2 \<and>
   running exampleSched = 2 \<and> length (tasks exampleSched) = next_idx exampleSched \<and>
   reachable 1 1 1 2000 finishedSched \<and> \<not> (\<exists>s'. step 1 1 1 2000 finishedSched s') \<and>
   next_idx finishedSched = 1 \<and> running finishedSched = 0"
proof -
  have a: "next_idx exampleSched < 3 \<and> \<not> acquired exampleSched \<and> \<not> sem exampleSched < 2"
    by (simp add: exampleSched_def)
  from extraction_concurrency_bounded [OF example_run] a
  have 1: "running exampleSched = 2 \<and> length (tasks exampleSched) = next_idx exampleSched"
    by blast
  have st: "\<forall>s'. \<not> step 1 1 1 2000 finishedSched s'" using finished_stuck by blast
  from extraction_concurrency_bounded [OF finished_run] st
  have 2: "next_idx finishedSched = 1 \<and> running finishedSched = 0"
    by simp
  from example_run a 1 finished_run st 2 show ?thesis by blast
qed

section \<open>Properties of the transformer\<close>

text \<open>
  Claim C4. \<open>transform\<close> is a function of the raw record (and of the library's parser and
  subtraction): it yields one record, with the name, the CPU number and the timestamp of
  the raw record and five indicators named utilization, nice, user, system, irq in this
  order. The first value is 100 minus the parsed idle field, the others are the parsed
  nice, user, system and irq fields. A field that is not syntactically a number, for
  which \<open>ParseFloat\<close> reports \<open>ErrSyntax\<close> with the value 0, contributes 0.
\<close>

theorem transform_indicators:
  assumes "syntax_error_yields_zero pf"
  shows "map ind_Name (Indicators (transform pf fsub cpu)) =
           [''utilization'', ''nice'', ''user'', ''system'', ''irq''] \<and>
         map Value (Indicators (transform pf fsub cpu)) =
           [fsub f64_100 (fst (pf (PIdle cpu))), fst (pf (PNice cpu)), fst (pf (PUser cpu)),
            fst (pf (PSys cpu)), fst (pf (PIRQ cpu))] \<and>
         Name (transform pf fsub cpu) = cs_Name cpu \<and>
         CPUNumber (transform pf fsub cpu) = cs_CPUNumber cpu \<and>
         Timestamp (transform pf fsub cpu) = cs_Timestamp cpu \<and>
         (snd (pf (PIdle cpu)) = Some ErrSyntax \<longrightarrow>
            Value (Indicators (transform pf fsub cpu) ! 0) = fsub f64_100 f64_0) \<and>
         (snd (pf (PNice cpu)) = Some ErrSyntax \<longrightarrow>
            Value (Indicators (transform pf fsub cpu) ! 1) = f64_0) \<and>
         (snd (pf (PUser cpu)) = Some ErrSyntax \<longrightarrow>
            Value (Indicators (transform pf fsub cpu) ! 2) = f64_0) \<and>
         (snd (pf (PSys cpu)) = Some ErrSyntax \<longrightarrow>
            Value (Indicators (transform pf fsub cpu) ! 3) = f64_0) \<and>
         (snd (pf (PIRQ cpu)) = Some ErrSyntax \<longrightarrow>
            Value (Indicators (transform pf fsub cpu) ! 4) = f64_0)"
  using assms by (simp add: transform_def Let_def syntax_error_yields_zero_def)

theorem transform_indicators_witness:
  "syntax_error_yields_zero toyParseFloat \<and>
   snd (toyParseFloat (PIdle garbledStats)) = Some ErrSyntax \<and>
   snd (toyParseFloat (PNice garbledStats)) = Some ErrSyntax \<and>
   snd (toyParseFloat (PUser garbledStats)) = Some ErrSyntax \<and>
   snd (toyParseFloat (PSys garbledStats)) = Some ErrSyntax \<and>
   snd (toyParseFloat (PIRQ garbledStats)) = Some ErrSyntax \<and>
   map Value (Indicators (transform toyParseFloat toySub garbledStats)) =
     [f64_100, f64_0, f64_0, f64_0, f64_0] \<and>
   map ind_Name (Indicators (transform toyParseFloat toySub garbledStats)) =
     [''utilization'', ''nice'', ''user'', ''system'', ''irq'']"
proof -
  have c: "syntax_error_yields_zero toyParseFloat"
    by (simp add: syntax_error_yields_zero_def toyParseFloat_def f64_0_def)
  from transform_indicators [OF c, of toySub garbledStats] c show ?thesis
    by (simp add: toyParseFloat_def garbledStats_def toySub_def f64_0_def)
qed

section \<open>Properties of the CSV reader\<close>

lemma collect_appliances_eq:
  "collect_appliances records =
     map (\<lambda>rec. \<lparr>IP = rec ! 0, HostName = rec ! 1\<rparr>) (filter (\<lambda>rec. 2 \<le> length rec) records)"
  by (induction records) auto

lemma collect_appliances_all:
  "list_all (\<lambda>row. 2 \<le> length row) records \<Longrightarrow>
   collect_appliances records = map (\<lambda>rec. \<lparr>IP = rec ! 0, HostName = rec ! 1\<rparr>) records"
  by (induction records) auto

lemma collect_appliances_none:
  "list_all (\<lambda>row. length row < 2) records \<Longrightarrow> collect_appliances records = []"
  by (induction records) auto

text \<open>
  What the reader returns when it returns rows: every row as an entity, or no entity at
  all. It never keeps some rows of a table and skips others.
\<close>

lemma readAppliancesFromCSV_all_or_none:
  assumes "fst (readAppliancesFromCSV (Rows rows)) = Inr appliances"
  shows "appliances = map (\<lambda>rec. \<lparr>IP = rec ! 0, HostName = rec ! 1\<rparr>) rows \<or> appliances = []"
proof (cases rows)
  case Nil
  with assms show ?thesis by (simp add: readAppliancesFromCSV_def ReadAll_def)
next
  case (Cons first rest)
  with assms have same: "list_all (\<lambda>row. length row = length first) rest"
    and res: "appliances = collect_appliances rows"
    by (auto simp add: readAppliancesFromCSV_def ReadAll_def split: if_splits)
  show ?thesis
  proof (cases "2 \<le> length first")
    case True
    with same Cons have "list_all (\<lambda>row. 2 \<le> length row) rows"
      by (auto simp add: list_all_iff)
    then show ?thesis using res by (simp add: collect_appliances_all)
  next
    case False
    with same Cons have "list_all (\<lambda>row. length row < 2) rows"
      by (auto simp add: list_all_iff)
    then show ?thesis using res by (simp add: collect_appliances_none)
  qed
qed

text \<open>
  Claim C8. A row with fewer than two fields is not always skipped: on the table whose
  rows are \<open>1.1.1.1,h1\<close>, \<open>bad\<close> and \<open>2.2.2.2,h2\<close> the read fails with
  \<open>ErrFieldCount\<close>, no entity is returned and no line is logged as skipped. The test
  for a short row is reached on tables of one field per row only, where it skips every
  row.
\<close>

theorem mixed_table_is_fatal:
  "readAppliancesFromCSV (Rows [[''1.1.1.1'', ''h1''], [''bad''], [''2.2.2.2'', ''h2'']])
     = (Inl ErrFieldCount, []) \<and>
   readAppliancesFromCSV (Rows [[''1.1.1.1'', ''h1''], [''2.2.2.2'', ''h2'']])
     = (Inr [\<lparr>IP = ''1.1.1.1'', HostName = ''h1''\<rparr>, \<lparr>IP = ''2.2.2.2'', HostName = ''h2''\<rparr>], []) \<and>
   readAppliancesFromCSV (Rows [[''bad''], [''worse'']]) = (Inr [], [1, 2])"
  by (simp add: readAppliancesFromCSV_def ReadAll_def)

section \<open>Properties of the recovery file names\<close>

lemma is_digit_char_of_digit: "d < 10 \<Longrightarrow> is_digit (char_of_digit d)"
  by (simp add: is_digit_def char_of_digit_def)

lemma digit_of_char_of_digit: "d < 10 \<Longrightarrow> digit_of_char (char_of_digit d) = d"
  by (simp add: digit_of_char_def char_of_digit_def)

lemma digits_value_append:
  "digits_value a (xs @ ys) =
     (case digits_value a xs of None \<Rightarrow> None | Some b \<Rightarrow> digits_value b ys)"
  by (induction xs arbitrary: a) auto

lemma digits_value_digits_of: "digits_value 0 (digits_of n) = Some n"
proof (induction n rule: digits_of.induct)
  case (1 n)
  show ?case
  proof (cases "n < 10")
    case True
    then show ?thesis
      by (subst digits_of.simps) (simp add: is_digit_char_of_digit digit_of_char_of_digit)
  next
    case False
    with 1 have "digits_value 0 (digits_of (n div 10)) = Some (n div 10)" by simp
    with False show ?thesis
      by (subst digits_of.simps)
         (simp add: digits_value_append is_digit_char_of_digit digit_of_char_of_digit)
  qed
qed

lemma digits_of_all_digits: "list_all is_digit (digits_of n)"
proof (induction n rule: digits_of.induct)
  case (1 n)
  show ?case
  proof (cases "n < 10")
    case True
    then show ?thesis by (subst digits_of.simps) (simp add: is_digit_char_of_digit)
  next
    case False
    with 1 show ?thesis by (subst digits_of.simps) (simp add: is_digit_char_of_digit)
  qed
qed

lemma digits_of_nonempty: "digits_of n \<noteq> []"
  by (subst digits_of.simps) simp

lemma is_digit_not_sign: "is_digit c \<Longrightarrow> c \<noteq> CHR ''-'' \<and> c \<noteq> CHR ''+''"
  by (auto simp add: is_digit_def)

lemma Atoi_itoa:
  assumes "- (2 ^ 63) \<le> k" and "k < 2 ^ 63"
  shows "Atoi (itoa k) = Inr k"
proof (cases "k < 0")
  case True
  then show ?thesis using assms
    by (simp add: Atoi_def itoa_def digits_of_nonempty digits_value_digits_of)
next
  case False
  obtain c cs where cs: "digits_of (nat k) = c # cs"
    using digits_of_nonempty [of "nat k"] by (cases "digits_of (nat k)") auto
  with digits_of_all_digits [of "nat k"] have "is_digit c" by simp
  then have "c \<noteq> CHR ''-''" "c \<noteq> CHR ''+''" using is_digit_not_sign by auto
  moreover have "digits_value 0 (c # cs) = Some (nat k)"
    using digits_value_digits_of [of "nat k"] cs by simp
  ultimately show ?thesis using False assms cs
    by (simp add: Atoi_def itoa_def del: digits_value.simps)
qed

lemma digits_value_nondigit:
  "c \<in> set ds \<Longrightarrow> \<not> is_digit c \<Longrightarrow> digits_value a ds = None"
  by (induction ds arbitrary: a) auto

lemma Atoi_nonnumeric:
  assumes "sfx = [] \<or> (\<exists>c \<in> set sfx. \<not> is_digit c \<and> c \<noteq> CHR ''-'' \<and> c \<noteq> CHR ''+'')"
  shows "Atoi sfx = Inl ErrSyntax"
proof (cases sfx)
  case Nil
  then show ?thesis by (simp add: Atoi_def)
next
  case (Cons x xs)
  with assms obtain c where c: "c \<in> set (x # xs)" "\<not> is_digit c" "c \<noteq> CHR ''-''" "c \<noteq> CHR ''+''"
    by auto
  let ?ds = "if x = CHR ''-'' \<or> x = CHR ''+'' then xs else x # xs"
  from c have "c \<in> set ?ds" by auto
  then have "digits_value 0 ?ds = None" "?ds \<noteq> []"
    using c(2) digits_value_nondigit by (fastforce)+
  then show ?thesis using Cons
    by (simp add: Atoi_def Let_def del: digits_value.simps split: if_splits)
qed

lemma genSplit_no_occurrence:
  "sep \<noteq> [] \<Longrightarrow> hd sep \<notin> set s \<Longrightarrow> genSplit sep cur s = [rev cur @ s]"
proof (induction s arbitrary: cur)
  case Nil
  then show ?case by simp
next
  case (Cons c cs)
  then have "take (length sep) (c # cs) \<noteq> sep"
    by (cases sep) auto
  with Cons show ?case by simp
qed

lemma itoa_chars: "c \<in> set (itoa k) \<Longrightarrow> is_digit c \<or> c = CHR ''-''"
  using digits_of_all_digits [of "nat k"] digits_of_all_digits [of "nat (- k)"]
  by (auto simp add: itoa_def list_all_iff split: if_splits)

lemma w_not_in_itoa: "CHR ''w'' \<notin> set (itoa k)"
  using itoa_chars [of "CHR ''w''" k] by (auto simp add: is_digit_def)

lemma slash_not_in_itoa: "CHR ''/'' \<notin> set (itoa k)"
  using itoa_chars [of "CHR ''/''" k] by (auto simp add: is_digit_def)

lemma Split_lane_name:
  "Split (''buffer_failed_worker'' @ itoa k) ''worker'' = [''buffer_failed_'', itoa k]"
  using genSplit_no_occurrence [of "''worker''" "itoa k" "[]"] w_not_in_itoa [of k]
  by (simp add: Split_def)

lemma TrimSuffix_append: "TrimSuffix (s @ t) t = s"
  by (simp add: TrimSuffix_def HasSuffix_def)

lemma Base_no_slash:
  assumes "s \<noteq> []" and "CHR ''/'' \<notin> set s"
  shows "Base s = s"
proof -
  from assms have "rev s \<noteq> []" by simp
  then obtain c cs where r: "rev s = c # cs" by (cases "rev s") auto
  with assms have "c \<noteq> CHR ''/''" by (metis list.set_intros(1) set_rev)
  with r have d: "dropWhile (\<lambda>c. c = CHR ''/'') (rev s) = rev s" by simp
  have t: "takeWhile (\<lambda>c. c \<noteq> CHR ''/'') (rev s) = rev s"
    using assms by (intro takeWhile_eq_all_conv [THEN iffD2]) auto
  show ?thesis using assms by (simp add: Base_def d t Let_def)
qed

lemma extractWorkerID_lane_name:
  assumes "- (2 ^ 63) \<le> k" and "k < 2 ^ 63"
  shows "extractWorkerID (''buffer_failed_worker'' @ itoa k @ ''.json.gz'') = k"
proof -
  let ?n = "''buffer_failed_worker'' @ itoa k @ ''.json.gz''"
  have "CHR ''/'' \<notin> set ?n" using slash_not_in_itoa [of k] by simp
  then have b: "Base ?n = ?n" by (intro Base_no_slash) simp_all
  have t: "TrimSuffix ?n ''.json.gz'' = ''buffer_failed_worker'' @ itoa k"
    using TrimSuffix_append [of "''buffer_failed_worker'' @ itoa k" "''.json.gz''"] by simp
  show ?thesis
    by (simp only: extractWorkerID_def b t Let_def Split_lane_name) (simp add: Atoi_itoa [OF assms])
qed

text \<open>
  Claim C6. \<open>extractWorkerID\<close> returns 0 for a file name that, once its directory and
  the suffix \<open>.json.gz\<close> are removed, is not cut by \<open>worker\<close> into exactly two parts,
  and for one whose second part is not a number: \<open>Atoi\<close> rejects it, as it does when the
  part is empty or holds a byte that is neither a digit nor a sign. For the name
  \<open>buffer_failed_worker<k>.json.gz\<close>, with \<open>k\<close> written as \<open>%d\<close> writes a 64-bit
  \<open>int\<close>, it returns \<open>k\<close>.
\<close>

theorem extractWorkerID_lane_or_zero:
  "(length (Split (TrimSuffix (Base f) ''.json.gz'') ''worker'') \<noteq> 2 \<longrightarrow> extractWorkerID f = 0) \<and>
   (Split (TrimSuffix (Base f) ''.json.gz'') ''worker'' = [p, sfx] \<and> Atoi sfx = Inl err \<longrightarrow>
      extractWorkerID f = 0) \<and>
   (Split (TrimSuffix (Base f) ''.json.gz'') ''worker'' = [p, sfx] \<and>
      (sfx = [] \<or> (\<exists>c \<in> set sfx. \<not> is_digit c \<and> c \<noteq> CHR ''-'' \<and> c \<noteq> CHR ''+'')) \<longrightarrow>
      extractWorkerID f = 0) \<and>
   (- (2 ^ 63) \<le> k \<and> k < 2 ^ 63 \<longrightarrow>
      extractWorkerID (''buffer_failed_worker'' @ itoa k @ ''.json.gz'') = k)"
proof -
  have 1: "extractWorkerID f = 0"
    if "length (Split (TrimSuffix (Base f) ''.json.gz'') ''worker'') \<noteq> 2"
    using that by (simp add: extractWorkerID_def Let_def)
  have 2: "extractWorkerID f = 0"
    if "Split (TrimSuffix (Base f) ''.json.gz'') ''worker'' = [p, sfx]" and "Atoi sfx = Inl err"
    using that by (simp add: extractWorkerID_def Let_def)
  have 3: "extractWorkerID f = 0"
    if s: "Split (TrimSuffix (Base f) ''.json.gz'') ''worker'' = [p, sfx]"
      and n: "sfx = [] \<or> (\<exists>c \<in> set sfx. \<not> is_digit c \<and> c \<noteq> CHR ''-'' \<and> c \<noteq> CHR ''+'')"
    using s Atoi_nonnumeric [OF n] by (simp add: extractWorkerID_def Let_def)
  have 4: "extractWorkerID (''buffer_failed_worker'' @ itoa k @ ''.json.gz'') = k"
    if "- (2 ^ 63) \<le> k" and "k < 2 ^ 63"
    using that by (rule extractWorkerID_lane_name)
  from 1 2 3 4 show ?thesis by blast
qed

theorem extractWorkerID_lane_or_zero_witness:
  "length (Split (TrimSuffix (Base ''notes.txt'') ''.json.gz'') ''worker'') \<noteq> 2 \<and>
   extractWorkerID ''notes.txt'' = 0 \<and>
   Split (TrimSuffix (Base ''buffer_failed_workerX1.json.gz'') ''.json.gz'') ''worker''
     = [''buffer_failed_'', ''X1''] \<and>
   Atoi ''X1'' = Inl ErrSyntax \<and> CHR ''X'' \<in> set ''X1'' \<and> \<not> is_digit CHR ''X'' \<and>
   extractWorkerID ''buffer_failed_workerX1.json.gz'' = 0 \<and>
   - (2 ^ 63) \<le> (7::int) \<and> (7::int) < 2 ^ 63 \<and>
   ''buffer_failed_worker'' @ itoa 7 @ ''.json.gz'' = ''buffer_failed_worker7.json.gz'' \<and>
   extractWorkerID ''buffer_failed_worker7.json.gz'' = 7"
proof -
  have h1: "length (Split (TrimSuffix (Base ''notes.txt'') ''.json.gz'') ''worker'') \<noteq> 2"
    by code_simp
  have h2: "Split (TrimSuffix (Base ''buffer_failed_workerX1.json.gz'') ''.json.gz'') ''worker''
     = [''buffer_failed_'', ''X1'']"
    by code_simp
  have h3: "Atoi ''X1'' = Inl ErrSyntax" by code_simp
  have h4: "CHR ''X'' \<in> set ''X1'' \<and> \<not> is_digit CHR ''X''" by code_simp
  have h5: "- (2 ^ 63) \<le> (7::int) \<and> (7::int) < 2 ^ 63" by simp
  have h6: "''buffer_failed_worker'' @ itoa 7 @ ''.json.gz'' = ''buffer_failed_worker7.json.gz''"
    by code_simp
  have c1: "extractWorkerID ''notes.txt'' = 0"
    using extractWorkerID_lane_or_zero [of "''notes.txt''"] h1 by blast
  have c2: "extractWorkerID ''buffer_failed_workerX1.json.gz'' = 0"
    using extractWorkerID_lane_or_zero
      [of "''buffer_failed_workerX1.json.gz''" "''buffer_failed_''" "''X1''" ErrSyntax] h2 h3
    by blast
  have c3: "extractWorkerID (''buffer_failed_worker'' @ itoa 7 @ ''.json.gz'') = 7"
    using extractWorkerID_lane_or_zero [of _ _ _ _ 7] h5 by blast
  from h1 h2 h3 h4 h5 h6 c1 c2 c3 show ?thesis by (simp only: simp_thms)
qed

section \<open>Properties of flushing and persistence\<close>

lemma sendToAPI_state:
  "snd (sendToAPI e data s) =
     s\<lparr>requests := requests s @ [case jsonMarshal e data of None \<Rightarrow> [] | Some b \<Rightarrow> b]\<rparr>"
  by (simp add: sendToAPI_def Let_def split: http_result.splits)

lemma sendToAPI_ok:
  "(fst (sendToAPI e data s) = None) =
     (\<exists>code. endpoint e (length (requests s))
                (case jsonMarshal e data of None \<Rightarrow> [] | Some b \<Rightarrow> b) = Status code
        \<and> 200 \<le> code \<and> code \<le> 299)"
  by (auto simp add: sendToAPI_def Let_def split: http_result.splits)

lemma flushBuffer_ok:
  assumes "fst (sendToAPI e (buffers s ! w) s) = None"
  shows "flushBuffer e w s =
           s\<lparr>requests := requests s @
                 [case jsonMarshal e (buffers s ! w) of None \<Rightarrow> [] | Some b \<Rightarrow> b],
             buffers := (buffers s)[w := []]\<rparr>"
  using assms by (simp add: flushBuffer_def Let_def case_prod_beta sendToAPI_state)

lemma flushBuffer_failed:
  assumes "fst (sendToAPI e (buffers s ! w) s) \<noteq> None"
  shows "flushBuffer e w s =
           (saveBufferToFile e (buffers s ! w) (''buffer_failed_worker'' @ itoa (int w))
              (s\<lparr>requests := requests s @
                    [case jsonMarshal e (buffers s ! w) of None \<Rightarrow> [] | Some b \<Rightarrow> b]\<rparr>))
           \<lparr>buffers := (buffers s)[w := []]\<rparr>"
proof -
  from assms obtain x where "fst (sendToAPI e (buffers s ! w) s) = Some x" by auto
  then show ?thesis
    by (simp add: flushBuffer_def Let_def case_prod_beta sendToAPI_state saveBufferToFile_def)
qed

lemma flushBuffer_buffers: "buffers (flushBuffer e w s) = (buffers s)[w := []]"
  by (cases "fst (sendToAPI e (buffers s ! w) s) = None")
     (simp_all add: flushBuffer_ok flushBuffer_failed saveBufferToFile_def Let_def)

lemma flushBuffer_requests:
  "requests (flushBuffer e w s) =
     requests s @ [case jsonMarshal e (buffers s ! w) of None \<Rightarrow> [] | Some b \<Rightarrow> b]"
  by (cases "fst (sendToAPI e (buffers s ! w) s) = None")
     (simp_all add: flushBuffer_ok flushBuffer_failed saveBufferToFile_def Let_def)

text \<open>
  Claim C1, amended. After \<open>flushBuffer\<close> the buffer of the lane is empty, whatever the
  endpoint answered. When the endpoint answers with a 2xx status no file is written. When
  it answers with another status, or the request fails, and the file can be created and
  the snapshot can be marshalled, the file named for the lane holds the compressed JSON
  encoding of exactly the snapshot and no other file changes.
\<close>

theorem flushBuffer_persists_or_discards:
  assumes "workerID < length (buffers s)"
    and "buffers s ! workerID = snapshot"
    and "payload = (case jsonMarshal e snapshot of None \<Rightarrow> [] | Some b \<Rightarrow> b)"
    and "path = ''buffer_failed_worker'' @ itoa (int workerID) @ ''.json.gz''"
  shows "buffers (flushBuffer e workerID s) ! workerID = [] \<and>
         (endpoint e (length (requests s)) payload = Status code \<and> 200 \<le> code \<and> code \<le> 299 \<longrightarrow>
            files (flushBuffer e workerID s) = files s) \<and>
         ((endpoint e (length (requests s)) payload = NetworkError \<or>
           (endpoint e (length (requests s)) payload = Status code \<and>
            \<not> (200 \<le> code \<and> code \<le> 299))) \<and>
          canCreate e path \<and> jsonMarshal e snapshot = Some encoded \<longrightarrow>
            map_of (files (flushBuffer e workerID s)) path
              = Some (gzipCompress e (encoded @ [CHR 0x0A])) \<and>
            (\<forall>other. other \<noteq> path \<longrightarrow>
               map_of (files (flushBuffer e workerID s)) other = map_of (files s) other))"
proof -
  have 1: "buffers (flushBuffer e workerID s) ! workerID = []"
    using assms(1) by (simp add: flushBuffer_buffers)
  have 2: "files (flushBuffer e workerID s) = files s"
    if "endpoint e (length (requests s)) payload = Status code" and "200 \<le> code" and "code \<le> 299"
  proof -
    from that assms have "fst (sendToAPI e (buffers s ! workerID) s) = None"
      by (simp add: sendToAPI_ok)
    then show ?thesis by (simp add: flushBuffer_ok)
  qed
  have 3: "map_of (files (flushBuffer e workerID s)) path
             = Some (gzipCompress e (encoded @ [CHR 0x0A])) \<and>
           (\<forall>other. other \<noteq> path \<longrightarrow>
              map_of (files (flushBuffer e workerID s)) other = map_of (files s) other)"
    if f: "endpoint e (length (requests s)) payload = NetworkError \<or>
           (endpoint e (length (requests s)) payload = Status code \<and>
            \<not> (200 \<le> code \<and> code \<le> 299))"
      and c: "canCreate e path" and m: "jsonMarshal e snapshot = Some encoded"
  proof -
    from f assms have "fst (sendToAPI e (buffers s ! workerID) s) \<noteq> None"
      by (auto simp add: sendToAPI_ok)
    then show ?thesis using c m assms
      by (simp add: flushBuffer_failed saveBufferToFile_def Let_def update_conv')
  qed
  from 1 2 3 show ?thesis by blast
qed

theorem flushBuffer_persists_or_discards_witness:
  "1 < length (buffers loadedState) \<and> buffers loadedState ! 1 = sampleBatch \<and>
   jsonMarshal (stubEnv (Status 500) True) sampleBatch = Some (stubText sampleBatch) \<and>
   canCreate (stubEnv (Status 500) True) ''buffer_failed_worker1.json.gz'' \<and>
   endpoint (stubEnv (Status 500) True) (length (requests loadedState)) (stubText sampleBatch)
     = Status 500 \<and>
   map_of (files (flushBuffer (stubEnv (Status 500) True) 1 loadedState))
      ''buffer_failed_worker1.json.gz'' = Some (stubGzip (stubText sampleBatch @ [CHR 0x0A])) \<and>
   buffers (flushBuffer (stubEnv (Status 500) True) 1 loadedState) ! 1 = [] \<and>
   endpoint (stubEnv (Status 200) True) (length (requests loadedState)) (stubText sampleBatch)
     = Status 200 \<and>
   files (flushBuffer (stubEnv (Status 200) True) 1 loadedState) = files loadedState \<and>
   buffers (flushBuffer (stubEnv (Status 200) True) 1 loadedState) ! 1 = []"
proof -
  let ?p = "''buffer_failed_worker'' @ itoa (int 1) @ ''.json.gz''"
  have p: "?p = ''buffer_failed_worker1.json.gz''" by code_simp
  have h1: "1 < length (buffers loadedState)" by (simp add: loadedState_def)
  have h2: "buffers loadedState ! 1 = sampleBatch" by (simp add: loadedState_def)
  have m: "jsonMarshal (stubEnv r True) sampleBatch = Some (stubText sampleBatch)" for r
    by code_simp
  have h3: "stubText sampleBatch
              = (case jsonMarshal (stubEnv r True) sampleBatch of None \<Rightarrow> [] | Some b \<Rightarrow> b)" for r
    by (simp add: m)
  have c: "canCreate (stubEnv (Status 500) True) ?p" by (simp add: stubEnv_def)
  have e5: "endpoint (stubEnv (Status 500) True) (length (requests loadedState))
              (stubText sampleBatch) = Status 500"
    by (simp add: stubEnv_def)
  have e2: "endpoint (stubEnv (Status 200) True) (length (requests loadedState))
              (stubText sampleBatch) = Status 200"
    by (simp add: stubEnv_def)
  have g: "gzipCompress (stubEnv (Status 500) True) = stubGzip" by (simp add: stubEnv_def)
  note fail = flushBuffer_persists_or_discards
    [OF h1 h2 h3 refl, of "Status 500" 500 "stubText sampleBatch"]
  note ok = flushBuffer_persists_or_discards
    [OF h1 h2 h3 refl, of "Status 200" 200 "stubText sampleBatch"]
  from fail e5 c m [of "Status 500"]
  have f1: "map_of (files (flushBuffer (stubEnv (Status 500) True) 1 loadedState)) ?p
              = Some (stubGzip (stubText sampleBatch @ [CHR 0x0A]))"
    and f2: "buffers (flushBuffer (stubEnv (Status 500) True) 1 loadedState) ! 1 = []"
    by (simp_all add: g)
  from ok e2
  have o1: "files (flushBuffer (stubEnv (Status 200) True) 1 loadedState) = files loadedState"
    and o2: "buffers (flushBuffer (stubEnv (Status 200) True) 1 loadedState) ! 1 = []"
    by simp_all
  from h1 h2 m [of "Status 500"] c e5 f1 f2 e2 o1 o2 show ?thesis
    by (simp only: p simp_thms)
qed

text \<open>
  The claim as stated fails on a snapshot that cannot be marshalled: the endpoint answers
  500, the file of the lane is created and holds the compression of nothing, and reading
  it back is an error. It fails as well when the file cannot be created: none exists.
\<close>

theorem flushBuffer_persists_counterexample:
  "buffers nanState ! 0 \<noteq> [] \<and>
   endpoint (stubEnv (Status 500) True) (length (requests nanState)) [] = Status 500 \<and>
   map_of (files (flushBuffer (stubEnv (Status 500) True) 0 nanState))
      ''buffer_failed_worker0.json.gz'' = Some (stubGzip []) \<and>
   readBufferFromFile (stubEnv (Status 500) True)
      (flushBuffer (stubEnv (Status 500) True) 0 nanState) ''buffer_failed_worker0.json.gz''
     = Inl DecodeErr \<and>
   map_of (files (flushBuffer (stubEnv (Status 500) False) 1 loadedState))
      ''buffer_failed_worker1.json.gz'' = None"
  by code_simp




section \<open>Properties of the load worker\<close>

lemma loadWorker_loop_no_flush:
  "w < length (buffers s) \<Longrightarrow> length (buffers s ! w) + length items < threshold \<Longrightarrow>
   loadWorker_loop e threshold w items s = s\<lparr>buffers := (buffers s)[w := buffers s ! w @ items]\<rparr>"
proof (induction items arbitrary: s)
  case Nil
  then show ?case by simp
next
  case (Cons item items)
  let ?s1 = "s\<lparr>buffers := (buffers s)[w := buffers s ! w @ [item]]\<rparr>"
  from Cons.prems have a: "w < length (buffers ?s1)"
    and b: "length (buffers ?s1 ! w) + length items < threshold"
    by simp_all
  from Cons.prems have "\<not> threshold \<le> length (buffers ?s1 ! w)" by simp
  then have "loadWorker_loop e threshold w (item # items) s = loadWorker_loop e threshold w items ?s1"
    by (simp add: Let_def)
  also have "\<dots> = ?s1\<lparr>buffers := (buffers ?s1)[w := buffers ?s1 ! w @ items]\<rparr>"
    by (rule Cons.IH [OF a b])
  also have "\<dots> = s\<lparr>buffers := (buffers s)[w := buffers s ! w @ item # items]\<rparr>"
    using Cons.prems by simp
  finally show ?case .
qed

lemma loadWorker_loop_append:
  "loadWorker_loop e threshold w (xs @ ys) s
     = loadWorker_loop e threshold w ys (loadWorker_loop e threshold w xs s)"
  by (induction xs arbitrary: s) (simp_all add: Let_def)

lemma loadWorker_loop_at_threshold:
  assumes "w < length (buffers s)" and "items \<noteq> []"
    and "length (buffers s ! w) + length items = threshold"
  shows "loadWorker_loop e threshold w items s
           = flushBuffer e w (s\<lparr>buffers := (buffers s)[w := buffers s ! w @ items]\<rparr>)"
proof -
  from assms(2) obtain ys x where items: "items = ys @ [x]"
    by (metis append_butlast_last_id)
  let ?s1 = "s\<lparr>buffers := (buffers s)[w := buffers s ! w @ ys]\<rparr>"
  from assms items have "length (buffers s ! w) + length ys < threshold" by simp
  with assms(1) have l: "loadWorker_loop e threshold w ys s = ?s1"
    by (rule loadWorker_loop_no_flush)
  have "loadWorker_loop e threshold w items s = loadWorker_loop e threshold w [x] ?s1"
    by (simp add: items loadWorker_loop_append l)
  also have "\<dots> = flushBuffer e w (s\<lparr>buffers := (buffers s)[w := buffers s ! w @ items]\<rparr>)"
    using assms items by (simp add: Let_def)
  finally show ?thesis .
qed

text \<open>
  Claim C2. A load worker that starts with an empty buffer and a positive threshold:
  on exactly \<open>threshold\<close> records it flushes them in the loop, before any later record
  is appended, and not again at closure, one request in all; on fewer records, at least
  one, it does not flush in the loop and flushes them once at closure; on no record it
  leaves the state as it was: no request, no file.
\<close>

theorem loadWorker_flushes_once:
  assumes "0 < threshold" and "workerID < length (buffers s)"
    and "workerID < length (dataChan s)" and "buffers s ! workerID = []"
  shows "(length items = threshold \<longrightarrow>
            loadWorker_loop e threshold workerID (items @ later) s
              = loadWorker_loop e threshold workerID later
                  (flushBuffer e workerID (s\<lparr>buffers := (buffers s)[workerID := items]\<rparr>)) \<and>
            loadWorker e threshold workerID items s
              = Done (flushBuffer e workerID (s\<lparr>buffers := (buffers s)[workerID := items]\<rparr>)) \<and>
            length (requests (state_of (loadWorker e threshold workerID items s)))
              = length (requests s) + 1) \<and>
         (0 < length items \<and> length items < threshold \<longrightarrow>
            loadWorker_loop e threshold workerID items s
              = s\<lparr>buffers := (buffers s)[workerID := items]\<rparr> \<and>
            loadWorker e threshold workerID items s
              = Done (flushBuffer e workerID (s\<lparr>buffers := (buffers s)[workerID := items]\<rparr>)) \<and>
            length (requests (state_of (loadWorker e threshold workerID items s)))
              = length (requests s) + 1) \<and>
         loadWorker e threshold workerID [] s = Done s"
proof -
  let ?full = "s\<lparr>buffers := (buffers s)[workerID := items]\<rparr>"
  have exact: "loadWorker_loop e threshold workerID items s = flushBuffer e workerID ?full"
    if "length items = threshold"
    using loadWorker_loop_at_threshold [of workerID s items threshold e] assms that by auto
  have 1: "loadWorker_loop e threshold workerID (items @ later) s
             = loadWorker_loop e threshold workerID later (flushBuffer e workerID ?full)"
    if "length items = threshold"
    by (simp add: loadWorker_loop_append exact [OF that])
  have 2: "loadWorker e threshold workerID items s = Done (flushBuffer e workerID ?full)"
    if "length items = threshold"
    using assms by (simp add: loadWorker_def exact [OF that] final_flush_def flushBuffer_buffers)
  have few: "loadWorker_loop e threshold workerID items s = ?full"
    if "length items < threshold"
    using loadWorker_loop_no_flush [of workerID s items threshold e] assms that by simp
  have 3: "loadWorker e threshold workerID items s = Done (flushBuffer e workerID ?full)"
    if "0 < length items" and "length items < threshold"
    using assms that by (simp add: loadWorker_def few final_flush_def)
  have 4: "length (requests (flushBuffer e workerID ?full)) = length (requests s) + 1"
    by (simp add: flushBuffer_requests)
  have 5: "loadWorker e threshold workerID [] s = Done s"
    using assms by (simp add: loadWorker_def final_flush_def)
  from 1 2 3 4 5 few show ?thesis by simp
qed

theorem loadWorker_flushes_once_witness:
  "0 < bufferThreshold \<and> 1 < length (buffers (startState 2 [])) \<and>
   1 < length (dataChan (startState 2 [])) \<and> buffers (startState 2 []) ! 1 = [] \<and>
   length (replicate bufferThreshold (hd sampleBatch)) = bufferThreshold \<and>
   length (requests (state_of (loadWorker (stubEnv (Status 200) True) bufferThreshold 1
      (replicate bufferThreshold (hd sampleBatch)) (startState 2 [])))) = 1 \<and>
   0 < length sampleBatch \<and> length sampleBatch < bufferThreshold \<and>
   length (requests (state_of (loadWorker (stubEnv (Status 200) True) bufferThreshold 1
      sampleBatch (startState 2 [])))) = 1 \<and>
   loadWorker (stubEnv (Status 200) True) bufferThreshold 1 [] (startState 2 [])
     = Done (startState 2 [])"
proof -
  let ?e = "stubEnv (Status 200) True"
  let ?s = "startState 2 []"
  have h1: "0 < bufferThreshold" by (simp add: bufferThreshold_def)
  have h2: "1 < length (buffers ?s)" by (simp add: startState_def initBuffers_def initChannels_def)
  have h3: "1 < length (dataChan ?s)" by (simp add: startState_def initBuffers_def initChannels_def)
  have h4: "buffers ?s ! 1 = []" by (simp add: startState_def initBuffers_def initChannels_def)
  have h5: "length (replicate bufferThreshold (hd sampleBatch)) = bufferThreshold" by simp
  have h6: "0 < length sampleBatch \<and> length sampleBatch < bufferThreshold"
    by (simp add: sampleBatch_def bufferThreshold_def)
  have r: "requests ?s = []" by (simp add: startState_def initBuffers_def initChannels_def)
  note full = loadWorker_flushes_once
    [OF h1 h2 h3 h4, of "replicate bufferThreshold (hd sampleBatch)" ?e "[]"]
  note few = loadWorker_flushes_once [OF h1 h2 h3 h4, of sampleBatch ?e "[]"]
  from full h5 have "length (requests (state_of (loadWorker ?e bufferThreshold 1
      (replicate bufferThreshold (hd sampleBatch)) ?s))) = length (requests ?s) + 1"
    by blast
  then have c1: "length (requests (state_of (loadWorker ?e bufferThreshold 1
      (replicate bufferThreshold (hd sampleBatch)) ?s))) = 1"
    by (simp only: r list.size)
  from few h6 have "length (requests (state_of (loadWorker ?e bufferThreshold 1
      sampleBatch ?s))) = length (requests ?s) + 1"
    by blast
  then have c2: "length (requests (state_of (loadWorker ?e bufferThreshold 1
      sampleBatch ?s))) = 1"
    by (simp only: r list.size)
  from few have c3: "loadWorker ?e bufferThreshold 1 [] ?s = Done ?s" by blast
  from h1 h2 h3 h4 h5 h6 c1 c2 c3 show ?thesis by (simp only: simp_thms)
qed

section \<open>Properties of the recovery loader\<close>

lemma enqueue_all_done:
  "w < length (dataChan s) \<Longrightarrow> length (dataChan s ! w) + length ds \<le> cap \<Longrightarrow>
   enqueue_all cap (int w) ds s = Done (s\<lparr>dataChan := (dataChan s)[w := dataChan s ! w @ ds]\<rparr>)"
proof (induction ds arbitrary: s)
  case Nil
  then show ?case by simp
next
  case (Cons d ds)
  let ?s1 = "s\<lparr>dataChan := (dataChan s)[w := dataChan s ! w @ [d]]\<rparr>"
  from Cons.prems have a: "w < length (dataChan ?s1)"
    and b: "length (dataChan ?s1 ! w) + length ds \<le> cap"
    by simp_all
  from Cons.prems have "enqueue_all cap (int w) (d # ds) s = enqueue_all cap (int w) ds ?s1"
    by simp
  also have "\<dots> = Done (?s1\<lparr>dataChan := (dataChan ?s1)[w := dataChan ?s1 ! w @ ds]\<rparr>)"
    by (rule Cons.IH [OF a b])
  also have "\<dots> = Done (s\<lparr>dataChan := (dataChan s)[w := dataChan s ! w @ d # ds]\<rparr>)"
    using Cons.prems by simp
  finally show ?case .
qed

lemma enqueue_all_files: "files (state_of (enqueue_all cap wid ds s)) = files s"
  by (induction ds arbitrary: s) simp_all

lemma reload_file_not_done_files:
  assumes "reload_file e cap file s = Blocked s' \<or> reload_file e cap file s = Panicked s'"
  shows "files s' = files s"
proof (cases "readBufferFromFile e s file")
  case (Inl err)
  with assms show ?thesis by (simp add: reload_file_def)
next
  case (Inr dataList)
  from assms Inr have "s' = state_of (enqueue_all cap (extractWorkerID file) dataList s)"
    by (auto simp add: reload_file_def split: outcome.splits)
  then show ?thesis by (simp add: enqueue_all_files)
qed

text \<open>
  Claim C5, amended. For a file that decodes, whose name is parsed to a lane \<open>w\<close> below
  the number of lanes, and whose records fit into what is left of the channel of that
  lane: the records are appended, in file order, to that channel and to no other, and
  then the file is removed. When the loop over the records does not complete, the files
  are as they were. A file that fails to decode is skipped and nothing changes. The
  loader handles the matching names in sorted order, and does nothing when there is none.
\<close>

theorem reload_file_requeues_then_deletes:
  "(readBufferFromFile e s file = Inr dataList \<and> extractWorkerID file = int w \<and>
    w < length (dataChan s) \<and> length (dataChan s ! w) + length dataList \<le> cap \<longrightarrow>
      reload_file e cap file s
        = Done (remove_file e file (s\<lparr>dataChan := (dataChan s)[w := dataChan s ! w @ dataList]\<rparr>)) \<and>
      (canRemove e file \<longrightarrow> map_of (files (state_of (reload_file e cap file s))) file = None)) \<and>
   (reload_file e cap file s = Blocked s' \<or> reload_file e cap file s = Panicked s' \<longrightarrow>
      files s' = files s) \<and>
   (readBufferFromFile e s file = Inl err \<longrightarrow> reload_file e cap file s = Done s) \<and>
   loadFailedBuffers e cap s
     = reload_files e cap (sort (filter (Match failedBufferPattern) (map fst (files s)))) s \<and>
   (filter (Match failedBufferPattern) (map fst (files s)) = [] \<longrightarrow>
      loadFailedBuffers e cap s = Done s)"
proof -
  have 1: "reload_file e cap file s
        = Done (remove_file e file (s\<lparr>dataChan := (dataChan s)[w := dataChan s ! w @ dataList]\<rparr>))"
    if "readBufferFromFile e s file = Inr dataList" and "extractWorkerID file = int w"
      and "w < length (dataChan s)" and "length (dataChan s ! w) + length dataList \<le> cap"
    using that by (simp add: reload_file_def enqueue_all_done)
  have 2: "map_of (files (remove_file e file t)) file = None" if "canRemove e file" for t
    using that by (simp add: remove_file_def delete_conv')
  have 3: "files s' = files s"
    if "reload_file e cap file s = Blocked s' \<or> reload_file e cap file s = Panicked s'"
    using that by (rule reload_file_not_done_files)
  have 4: "reload_file e cap file s = Done s" if "readBufferFromFile e s file = Inl err"
    using that by (simp add: reload_file_def)
  have 5: "loadFailedBuffers e cap s
     = reload_files e cap (sort (filter (Match failedBufferPattern) (map fst (files s)))) s"
    by (simp add: loadFailedBuffers_def Glob_def)
  have 6: "loadFailedBuffers e cap s = Done s"
    if "filter (Match failedBufferPattern) (map fst (files s)) = []"
    using that by (simp add: 5)
  from 1 2 3 4 5 6 show ?thesis by simp
qed

lemma startState_simps:
  "buffers (startState n dir) = replicate n []"
  "dataChan (startState n dir) = replicate n []"
  "files (startState n dir) = dir"
  "requests (startState n dir) = []"
  by (simp_all add: startState_def initBuffers_def initChannels_def)

lemma full_lane_blocks:
  "reload_file (stubEnv (Status 200) True) chanCapacity ''buffer_failed_worker1.json.gz''
     fullLaneState = Blocked fullLaneState"
proof -
  have r: "readBufferFromFile (stubEnv (Status 200) True) fullLaneState
             ''buffer_failed_worker1.json.gz'' = Inr sampleBatch"
    by (simp add: readBufferFromFile_def fullLaneState_def lane1State_def startState_simps
        sampleFile_def stubEnv_def stubGzip_def stubGunzip_def stubDecode_def)
  have w: "extractWorkerID ''buffer_failed_worker1.json.gz'' = 1" by code_simp
  have l: "length (dataChan fullLaneState) = 10"
    by (simp add: fullLaneState_def lane1State_def startState_simps loadWorkers_def)
  have f: "length (dataChan fullLaneState ! 1) = chanCapacity"
    by (simp add: fullLaneState_def lane1State_def startState_simps loadWorkers_def)
  have s: "sampleBatch = hd sampleBatch # tl sampleBatch" by (simp add: sampleBatch_def)
  have "enqueue_all chanCapacity 1 sampleBatch fullLaneState = Blocked fullLaneState"
    using f by (subst s) (simp add: l)
  then show ?thesis by (simp add: reload_file_def r w)
qed

theorem reload_file_requeues_then_deletes_witness:
  "readBufferFromFile (stubEnv (Status 200) True) lane1State ''buffer_failed_worker1.json.gz''
     = Inr sampleBatch \<and>
   extractWorkerID ''buffer_failed_worker1.json.gz'' = int 1 \<and>
   1 < length (dataChan lane1State) \<and>
   length (dataChan lane1State ! 1) + length sampleBatch \<le> chanCapacity \<and>
   canRemove (stubEnv (Status 200) True) ''buffer_failed_worker1.json.gz'' \<and>
   dataChan (state_of (reload_file (stubEnv (Status 200) True) chanCapacity
      ''buffer_failed_worker1.json.gz'' lane1State)) = (replicate 10 [])[1 := sampleBatch] \<and>
   map_of (files (state_of (reload_file (stubEnv (Status 200) True) chanCapacity
      ''buffer_failed_worker1.json.gz'' lane1State))) ''buffer_failed_worker1.json.gz'' = None \<and>
   reload_file (stubEnv (Status 200) True) chanCapacity ''buffer_failed_worker1.json.gz''
     fullLaneState = Blocked fullLaneState \<and>
   map_of (files fullLaneState) ''buffer_failed_worker1.json.gz'' = Some sampleFile \<and>
   readBufferFromFile (stubEnv (Status 200) True) corruptState ''buffer_failed_worker2.json.gz''
     = Inl GzipErr \<and>
   reload_file (stubEnv (Status 200) True) chanCapacity ''buffer_failed_worker2.json.gz''
     corruptState = Done corruptState \<and>
   filter (Match failedBufferPattern) (map fst (files (startState loadWorkers []))) = [] \<and>
   loadFailedBuffers (stubEnv (Status 200) True) chanCapacity (startState loadWorkers [])
     = Done (startState loadWorkers [])"
proof -
  let ?e = "stubEnv (Status 200) True"
  let ?f = "''buffer_failed_worker1.json.gz''"
  let ?g = "''buffer_failed_worker2.json.gz''"
  have h1: "readBufferFromFile ?e lane1State ?f = Inr sampleBatch"
    by (simp add: readBufferFromFile_def lane1State_def startState_simps
        sampleFile_def stubEnv_def stubGzip_def stubGunzip_def stubDecode_def)
  have h2: "extractWorkerID ?f = int 1" by code_simp
  have h3: "1 < length (dataChan lane1State)"
    by (simp add: lane1State_def startState_simps loadWorkers_def)
  have d: "dataChan lane1State = replicate 10 []"
    by (simp add: lane1State_def startState_simps loadWorkers_def)
  have h4: "length (dataChan lane1State ! 1) + length sampleBatch \<le> chanCapacity"
    by (simp add: d sampleBatch_def chanCapacity_def)
  have h5: "canRemove ?e ?f" by (simp add: stubEnv_def)
  note ok = reload_file_requeues_then_deletes
    [of ?e lane1State ?f sampleBatch 1 chanCapacity lane1State GzipErr]
  from ok h1 h2 h3 h4 have c1: "reload_file ?e chanCapacity ?f lane1State
        = Done (remove_file ?e ?f
            (lane1State\<lparr>dataChan := (dataChan lane1State)[1 := dataChan lane1State ! 1 @ sampleBatch]\<rparr>))"
    by blast
  have c2: "dataChan (state_of (reload_file ?e chanCapacity ?f lane1State))
              = (replicate 10 [])[1 := sampleBatch]"
    by (simp add: c1 remove_file_def d)
  from ok h1 h2 h3 h4 h5
  have c3: "map_of (files (state_of (reload_file ?e chanCapacity ?f lane1State))) ?f = None"
    by blast
  have c4: "map_of (files fullLaneState) ?f = Some sampleFile"
    by (simp add: fullLaneState_def lane1State_def startState_simps)
  have h6: "readBufferFromFile ?e corruptState ?g = Inl GzipErr"
    by (simp add: readBufferFromFile_def corruptState_def startState_simps stubEnv_def
        stubGunzip_def)
  note bad = reload_file_requeues_then_deletes
    [of ?e corruptState ?g sampleBatch 2 chanCapacity corruptState GzipErr]
  from bad h6 have c5: "reload_file ?e chanCapacity ?g corruptState = Done corruptState"
    by blast
  have h7: "filter (Match failedBufferPattern) (map fst (files (startState loadWorkers []))) = []"
    by (simp add: startState_simps)
  note none = reload_file_requeues_then_deletes
    [of ?e "startState loadWorkers []" ?f sampleBatch 1 chanCapacity lane1State GzipErr]
  from none h7 have c6: "loadFailedBuffers ?e chanCapacity (startState loadWorkers [])
     = Done (startState loadWorkers [])"
    by blast
  from h1 h2 h3 h4 h5 c2 c3 full_lane_blocks c4 h6 c5 h7 c6 show ?thesis
    by (simp only: simp_thms)
qed

text \<open>
  The claim as stated fails for a decodable file whose name is parsed to lane 10 when
  there are ten lanes: nothing is enqueued, the loader panics. It fails as well when the
  channel of the lane is full: the send never returns.
\<close>

theorem reload_file_counterexample:
  "readBufferFromFile (stubEnv (Status 200) True) strayState ''buffer_failed_worker10.json.gz''
     = Inr sampleBatch \<and>
   extractWorkerID ''buffer_failed_worker10.json.gz'' = 10 \<and>
   dataChan strayState = replicate 10 [] \<and>
   reload_file (stubEnv (Status 200) True) chanCapacity ''buffer_failed_worker10.json.gz''
     strayState = Panicked strayState \<and>
   readBufferFromFile (stubEnv (Status 200) True) fullLaneState ''buffer_failed_worker1.json.gz''
     = Inr sampleBatch \<and>
   length (dataChan fullLaneState ! 1) = chanCapacity \<and>
   reload_file (stubEnv (Status 200) True) chanCapacity ''buffer_failed_worker1.json.gz''
     fullLaneState = Blocked fullLaneState"
proof -
  let ?e = "stubEnv (Status 200) True"
  have 1: "readBufferFromFile ?e strayState ''buffer_failed_worker10.json.gz'' = Inr sampleBatch"
    by code_simp
  have 2: "extractWorkerID ''buffer_failed_worker10.json.gz'' = 10" by code_simp
  have 3: "dataChan strayState = replicate 10 []"
    by (simp add: strayState_def startState_simps loadWorkers_def)
  have 4: "reload_file ?e chanCapacity ''buffer_failed_worker10.json.gz'' strayState
             = Panicked strayState"
    by code_simp
  have 5: "readBufferFromFile ?e fullLaneState ''buffer_failed_worker1.json.gz'' = Inr sampleBatch"
    by (simp add: readBufferFromFile_def fullLaneState_def lane1State_def startState_simps
        sampleFile_def stubEnv_def stubGzip_def stubGunzip_def stubDecode_def)
  have 6: "length (dataChan fullLaneState ! 1) = chanCapacity"
    by (simp add: fullLaneState_def lane1State_def startState_simps loadWorkers_def)
  from 1 2 3 4 5 6 full_lane_blocks show ?thesis by (simp only: simp_thms)
qed

text \<open>
  Claim C10. The identifier parsed from a name that matches the pattern is not always a
  valid index of \<open>dataChan\<close>: with the ten lanes of the program, the matching name
  \<open>buffer_failed_worker10.json.gz\<close> is parsed as 10, and reloading a decodable file of
  that name indexes \<open>dataChan\<close> out of range: the loader panics.
\<close>

theorem stray_file_panics:
  "Match failedBufferPattern ''buffer_failed_worker10.json.gz'' \<and>
   readBufferFromFile (stubEnv (Status 200) True) strayState ''buffer_failed_worker10.json.gz''
     = Inr sampleBatch \<and>
   extractWorkerID ''buffer_failed_worker10.json.gz'' = 10 \<and>
   length (dataChan strayState) = 10 \<and>
   loadFailedBuffers (stubEnv (Status 200) True) chanCapacity strayState = Panicked strayState"
  by code_simp

end
